theory Spec2Isabelle
  imports Main "HOL-Library.Sublist" "HOL-Library.AList"
begin

section \<open>Strings and paths\<close>

text \<open>
  Strings are lists of characters, one \<^typ>\<open>char\<close> per code unit; the development
  ranges over code units below 256. Of the line terminators of ECMAScript only line feed
  and carriage return lie in that range.
\<close>

text \<open>\<^verbatim>\<open>s.split(c)\<close> for a separator of one character: the pieces between the
  separators, empty pieces included; the empty string has the single piece \<open>''''\<close>.\<close>

fun split_on :: "char \<Rightarrow> string \<Rightarrow> string list" where
  "split_on c [] = [[]]"
| "split_on c (x # xs) =
     (if x = c then [] # split_on c xs
      else (case split_on c xs of [] \<Rightarrow> [[x]] | s # ss \<Rightarrow> (x # s) # ss))"

text \<open>\<^verbatim>\<open>xs.join(sep)\<close>.\<close>

fun join_with :: "string \<Rightarrow> string list \<Rightarrow> string" where
  "join_with sep [] = []"
| "join_with sep [s] = s"
| "join_with sep (s # t # ss) = s @ sep @ join_with sep (t # ss)"

text \<open>\<^verbatim>\<open>.filter(Boolean)\<close> on an array of strings keeps the non-empty ones.\<close>

definition filter_Boolean :: "string list \<Rightarrow> string list" where
  "filter_Boolean ss = filter (\<lambda>s. s \<noteq> []) ss"

text \<open>\<^verbatim>\<open>s.toLowerCase()\<close> on the letters A to Z; other code units below 256 that
  have a lower case are not part of any recognised extension and are left alone.\<close>

definition lower_char :: "char \<Rightarrow> char" where
  "lower_char c =
     (let n = (of_char c :: nat) in if 65 \<le> n \<and> n \<le> 90 then char_of (n + 32) else c)"

definition toLowerCase :: "string \<Rightarrow> string" where
  "toLowerCase s = map lower_char s"

text \<open>
  A path of the file system is the list of its segments from the root: the absolute,
  normalised form that \<^verbatim>\<open>path.resolve\<close> returns (POSIX separators).
\<close>

type_synonym fpath = "string list"

definition path_step :: "fpath \<Rightarrow> string \<Rightarrow> fpath" where
  "path_step p s =
     (if s = ''..'' then butlast p else if s = ''.'' \<or> s = [] then p else p @ [s])"

text \<open>\<^verbatim>\<open>path.resolve(base, rel)\<close> for an absolute, normalised \<open>base\<close>: an absolute
  \<open>rel\<close> replaces the base, a relative one is walked from it segment by segment.\<close>

definition path_resolve :: "fpath \<Rightarrow> string \<Rightarrow> fpath" where
  "path_resolve base rel =
     fold (\<lambda>s p. path_step p s) (split_on CHR ''/'' rel)
       (if rel \<noteq> [] \<and> hd rel = CHR ''/'' then [] else base)"

text \<open>\<^verbatim>\<open>path.relative(from, to)\<close> for two absolute, normalised paths.\<close>

fun relative_segments :: "fpath \<Rightarrow> fpath \<Rightarrow> fpath" where
  "relative_segments (a # as) (b # bs) =
     (if a = b then relative_segments as bs
      else replicate (length (a # as)) ''..'' @ (b # bs))"
| "relative_segments as bs = replicate (length as) ''..'' @ bs"

definition path_relative :: "fpath \<Rightarrow> fpath \<Rightarrow> string" where
  "path_relative from to = join_with ''/'' (relative_segments from to)"

section \<open>The file system and the platform\<close>

datatype fnode = Dir | File string

type_synonym filesystem = "fpath \<Rightarrow> fnode option"

datatype error =
    DirectoryMissing fpath
  | InvalidURL
  | UrlTypeError string
  | FsError fpath
  | FetchFailed string
  | ExpectedNav "string option"
  | TypeError
  | URIError string
  | ApiError string
  | StageError string

text \<open>
  \<open>DirectoryMissing\<close> is \<^verbatim>\<open>Error(`Directory ${assetPath} does not exist`)\<close>,
  \<open>InvalidURL\<close> is \<^verbatim>\<open>Error('Invalid URL')\<close>, \<open>ExpectedNav\<close> is
  \<^verbatim>\<open>Error(`Expected nav, got ${toc.tagName}`)\<close>; \<open>TypeError\<close> is a read of a property of
  \<^verbatim>\<open>undefined\<close>; the others are raised by the platform and the collaborators:
  \<^verbatim>\<open>new URL\<close>, the file system, \<^verbatim>\<open>fetch\<close>, \<^verbatim>\<open>decodeURI\<close>, the API client and the
  transform stages.
\<close>

definition existsSync :: "filesystem \<Rightarrow> fpath \<Rightarrow> bool" where
  "existsSync fs p = (fs p \<noteq> None)"

definition is_file :: "fnode option \<Rightarrow> bool" where
  "is_file n = (case n of Some (File _) \<Rightarrow> True | _ \<Rightarrow> False)"

text \<open>\<^verbatim>\<open>fse.ensureDirSync(p)\<close>: creates \<open>p\<close> and its missing ancestors; raises when
  a regular file stands at \<open>p\<close> or at one of its ancestors.\<close>

definition ensureDirSync :: "filesystem \<Rightarrow> fpath \<Rightarrow> error + filesystem" where
  "ensureDirSync fs p =
     (if list_ex (\<lambda>q. is_file (fs q)) (prefixes p) then Inl (FsError p)
      else Inr (\<lambda>q. if prefix q p then Some Dir else fs q))"

text \<open>\<^verbatim>\<open>fse.writeFile(p, bytes)\<close>, once the write has come to its end: a write
  onto a directory fails and leaves the file system as it was.\<close>

definition writeFile :: "filesystem \<Rightarrow> fpath \<Rightarrow> string \<Rightarrow> filesystem" where
  "writeFile fs p bytes = (case fs p of Some Dir \<Rightarrow> fs | _ \<Rightarrow> fs(p \<mapsto> File bytes))"

text \<open>
  The source calls \<^verbatim>\<open>fse.writeFile\<close> without \<^verbatim>\<open>await\<close>: the call starts the
  write and \<open>downloadFile\<close> returns while the write is under way (its failure is
  observed by nobody). A write under way is the path, the bytes, and the number of
  calls of \<open>downloadFile\<close> that are still to start before the file is on disk. The
  file system of the model is what the next call of \<open>downloadFile\<close> finds on disk;
  \<open>land_writes\<close> puts on disk, in the order in which they were started, the writes
  that no further call is to miss, and keeps the others.
\<close>

type_synonym pending = "(nat \<times> fpath \<times> string) list"

definition land_writes :: "filesystem \<Rightarrow> pending \<Rightarrow> filesystem \<times> pending" where
  "land_writes fs ws =
     (fold (\<lambda>(k, p, bytes) g. if k = 0 then writeFile g p bytes else g) ws fs,
      filter (\<lambda>(k, p, bytes). k \<noteq> 0) ws)"

text \<open>
  What the platform supplies: \<open>url_pathname u\<close> is \<^verbatim>\<open>new URL(u).pathname\<close> (\<open>None\<close>
  when the constructor throws), \<open>fetch u\<close> the bytes of the response to
  \<^verbatim>\<open>fetch(u)\<close> (\<open>None\<close> when the request or the reading of its body rejects),
  \<open>decodeURI\<close> the function of that name (\<open>None\<close> when it throws),
  \<open>stringify_hint props index\<close> is \<^verbatim>\<open>JSON.stringify({ ...props, index })\<close>, \<open>cwd\<close>
  is \<^verbatim>\<open>process.cwd()\<close>, and \<open>write_lag p\<close> is the number of later calls of
  \<open>downloadFile\<close> that start before a write to \<open>p\<close>, started with
  \<^verbatim>\<open>fse.writeFile\<close>, is on disk (0 when the next call already finds the file).
\<close>

record platform =
  url_pathname :: "string \<Rightarrow> string option"
  fetch :: "string \<Rightarrow> string option"
  decodeURI :: "string \<Rightarrow> string option"
  stringify_hint :: "(string \<times> string) list \<Rightarrow> nat \<Rightarrow> string"
  cwd :: fpath
  write_lag :: "fpath \<Rightarrow> nat"

section \<open>asset.ts\<close>

definition VIRTUAL_CONTENT_ROOT :: string where
  "VIRTUAL_CONTENT_ROOT = ''src/content/notion''"

datatype tag = Download | Cached

text \<open>The successful return of \<open>downloadFile\<close>: the returned relative path, the value
  of the local \<open>filePath\<close> (which the log line reports), and the tag passed to
  \<open>options.tag\<close>.\<close>

record saved =
  relPath :: string
  filePath :: fpath
  tagged :: tag

text \<open>The whole effect of one call: the file system when it returns, the write that
  it started and did not await (\<open>None\<close> when it started none), the URLs it requested
  with \<^verbatim>\<open>fetch\<close>, and what it returned or raised.\<close>

record download =
  dl_fs :: filesystem
  dl_write :: "(fpath \<times> string) option"
  dl_requests :: "string list"
  dl_ret :: "error + saved"

text \<open>The destructuring \<^verbatim>\<open>const [parentId, objId, fileName] = ...\<close> with the check
  \<^verbatim>\<open>!fileName || !parentId || !objId\<close>: the first three non-empty segments of the
  pathname; an absent one is \<^verbatim>\<open>undefined\<close> and raises.\<close>

definition url_segments :: "string \<Rightarrow> error + (string \<times> string \<times> string)" where
  "url_segments pathname =
     (case filter_Boolean (split_on CHR ''/'' pathname) of
        parentId # objId # fileName # _ \<Rightarrow> Inr (parentId, objId, fileName)
      | _ \<Rightarrow> Inl InvalidURL)"

definition downloadFile ::
  "platform \<Rightarrow> filesystem \<Rightarrow> string \<Rightarrow> fpath \<Rightarrow> bool \<Rightarrow> download" where
  "downloadFile env fs url assetPath ignoreCache =
     (if \<not> existsSync fs assetPath
      then \<lparr>dl_fs = fs, dl_write = None, dl_requests = [],
            dl_ret = Inl (DirectoryMissing assetPath)\<rparr>
      else case url_pathname env url of
        None \<Rightarrow> \<lparr>dl_fs = fs, dl_write = None, dl_requests = [], dl_ret = Inl (UrlTypeError url)\<rparr>
      | Some pathname \<Rightarrow>
         (case url_segments pathname of
            Inl e \<Rightarrow> \<lparr>dl_fs = fs, dl_write = None, dl_requests = [], dl_ret = Inl e\<rparr>
          | Inr (parentId, objId, fileName) \<Rightarrow>
             (let saveDirPath = path_resolve assetPath objId in
              case ensureDirSync fs saveDirPath of
                Inl e \<Rightarrow> \<lparr>dl_fs = fs, dl_write = None, dl_requests = [], dl_ret = Inl e\<rparr>
              | Inr fs1 \<Rightarrow>
                 (let file = path_resolve saveDirPath fileName;
                      relBasePath = path_resolve (cwd env) VIRTUAL_CONTENT_ROOT
                  in if ignoreCache \<or> \<not> existsSync fs1 file
                     then (case fetch env url of
                             None \<Rightarrow> \<lparr>dl_fs = fs1, dl_write = None, dl_requests = [url],
                                      dl_ret = Inl (FetchFailed url)\<rparr>
                           | Some bytes \<Rightarrow>
                               \<lparr>dl_fs = fs1, dl_write = Some (file, bytes), dl_requests = [url],
                                dl_ret = Inr \<lparr>relPath = path_relative relBasePath file,
                                             filePath = file, tagged = Download\<rparr>\<rparr>)
                     else \<lparr>dl_fs = fs1, dl_write = None, dl_requests = [],
                           dl_ret = Inr \<lparr>relPath = path_relative relBasePath file,
                                        filePath = file, tagged = Cached\<rparr>\<rparr>))))"

text \<open>\<open>resolveAssetPath\<close>: from a path relative to the virtual content root to a path
  relative to the working directory.\<close>

definition resolveAssetPath :: "platform \<Rightarrow> string \<Rightarrow> string" where
  "resolveAssetPath env rawPath =
     path_relative (cwd env)
       (path_resolve (path_resolve (cwd env) VIRTUAL_CONTENT_ROOT) rawPath)"

section \<open>rehype/rehype-assets.ts\<close>

text \<open>
  A node of the markup tree is an element (tag name, properties in insertion order,
  children) or a text node; a tree is the list of the children of its root. Property
  values are strings.
\<close>

datatype hnode = Element string "(string \<times> string) list" "hnode list" | Text string

type_synonym props = "(string \<times> string) list"

definition ASTRO_IMAGE_FORMATS :: "string list" where
  "ASTRO_IMAGE_FORMATS = [''avif'', ''webp'', ''png'', ''jpg'', ''jpeg'', ''gif'']"

definition isAstroImageFormat :: "string \<Rightarrow> bool" where
  "isAstroImageFormat src =
     (let ext = last (split_on CHR ''.'' src)
      in ext \<noteq> [] \<and> toLowerCase ext \<in> set ASTRO_IMAGE_FORMATS)"

definition line_terminator :: "char \<Rightarrow> bool" where
  "line_terminator c = (c = CHR 0x0A \<or> c = CHR 0x0D)"

text \<open>The repetition \<^verbatim>\<open>(..\/)+\<close> of the regular expression: an unescaped dot
  matches any character but a line terminator, so each round takes two such characters
  and a slash.\<close>

fun strip_triples :: "string \<Rightarrow> string" where
  "strip_triples (a # b # c # rest) =
     (if \<not> line_terminator a \<and> \<not> line_terminator b \<and> c = CHR ''/''
      then strip_triples rest else a # b # c # rest)"
| "strip_triples s = s"

text \<open>\<^verbatim>\<open>src.replace(/^(..\/)+/, '/')\<close>.\<close>

definition replace_dotdot :: "string \<Rightarrow> string" where
  "replace_dotdot s = (if strip_triples s = s then s else CHR ''/'' # strip_triples s)"

text \<open>\<^verbatim>\<open>s.replace(/^src\//, '/')\<close>.\<close>

definition replace_src :: "string \<Rightarrow> string" where
  "replace_src s = (if prefix ''src/'' s then CHR ''/'' # drop 4 s else s)"

definition ASTRO_IMAGE_KEY :: string where
  "ASTRO_IMAGE_KEY = ''__ASTRO_IMAGE_''"

text \<open>\<open>assetOccurrenceMap\<close> with \<^verbatim>\<open>get(src) || 0\<close>: a count for every source,
  0 at the start.\<close>

type_synonym occurrences = "string \<Rightarrow> nat"

text \<open>The last statement of the visitor: the rewrite of \<open>href\<close>.\<close>

definition rewrite_href :: "props \<Rightarrow> props" where
  "rewrite_href ps =
     (case map_of ps ''href'' of
        Some h \<Rightarrow> if prefix ''src/'' h then AList.update ''href'' (replace_src h) ps else ps
      | None \<Rightarrow> ps)"

text \<open>The visitor on one element: its new properties and the new occurrence map, or
  the error of \<^verbatim>\<open>decodeURI\<close>.\<close>

definition visit_element ::
  "platform \<Rightarrow> string list \<Rightarrow> string \<Rightarrow> props \<Rightarrow> occurrences \<Rightarrow> error + (props \<times> occurrences)"
where
  "visit_element env paths tag ps occ =
     (case map_of ps ''src'' of
        None \<Rightarrow> Inr (rewrite_href ps, occ)
      | Some raw \<Rightarrow>
          if raw = [] then Inr (rewrite_href ps, occ)
          else (case decodeURI env raw of
             None \<Rightarrow> Inl (URIError raw)
           | Some src \<Rightarrow>
              (let ps1 = AList.update ''src'' src ps in
               if tag = ''img'' \<and> src \<in> set paths \<and> isAstroImageFormat src
               then (let index = occ src;
                         occ1 = occ(src := index + 1);
                         ps2 = AList.update ASTRO_IMAGE_KEY (stringify_hint env ps1 index) ps1;
                         ps3 = filter (\<lambda>kv. fst kv \<notin> set (map fst ps1)) ps2
                     in Inr (ps3, occ1))
               else (let ps2 = (if prefix ''../'' src
                                then AList.update ''src'' (replace_dotdot src) ps1 else ps1);
                         ps3 = (if prefix ''src/'' src
                                then AList.update ''src'' (replace_src src) ps2 else ps2)
                     in Inr (rewrite_href ps3, occ)))))"

text \<open>\<^verbatim>\<open>visit(tree, visitor)\<close>: every node in document order, a node before its
  children.\<close>

fun visit :: "platform \<Rightarrow> string list \<Rightarrow> hnode \<Rightarrow> occurrences \<Rightarrow> error + (hnode \<times> occurrences)"
  and visit_all ::
    "platform \<Rightarrow> string list \<Rightarrow> hnode list \<Rightarrow> occurrences \<Rightarrow> error + (hnode list \<times> occurrences)"
where
  "visit env paths (Text v) occ = Inr (Text v, occ)"
| "visit env paths (Element tag ps cs) occ =
     (case visit_element env paths tag ps occ of
        Inl e \<Rightarrow> Inl e
      | Inr (ps1, occ1) \<Rightarrow>
         (case visit_all env paths cs occ1 of
            Inl e \<Rightarrow> Inl e
          | Inr (cs1, occ2) \<Rightarrow> Inr (Element tag ps1 cs1, occ2)))"
| "visit_all env paths [] occ = Inr ([], occ)"
| "visit_all env paths (n # ns) occ =
     (case visit env paths n occ of
        Inl e \<Rightarrow> Inl e
      | Inr (n1, occ1) \<Rightarrow>
         (case visit_all env paths ns occ1 of
            Inl e \<Rightarrow> Inl e
          | Inr (ns1, occ2) \<Rightarrow> Inr (n1 # ns1, occ2)))"

definition rehypeAssets :: "platform \<Rightarrow> string list \<Rightarrow> hnode list \<Rightarrow> error + hnode list" where
  "rehypeAssets env paths tree =
     (case visit_all env paths tree (\<lambda>src. 0) of Inl e \<Rightarrow> Inl e | Inr (t, occ) \<Rightarrow> Inr t)"

section \<open>render.ts: the table of contents\<close>

record heading =
  depth :: nat
  h_text :: "string option"
  slug :: string

text \<open>
  The heading of one list item, from its link: \<^verbatim>\<open>link.children![0].value\<close> and
  \<^verbatim>\<open>link.properties.href!.slice(1)\<close>. A link that is a text node, has no child or has
  no \<open>href\<close> makes the source read a property of \<^verbatim>\<open>undefined\<close>; a first child that
  is an element has no \<open>value\<close>, and the text is \<^verbatim>\<open>undefined\<close> (\<open>None\<close>).
\<close>

definition link_heading :: "hnode \<Rightarrow> nat \<Rightarrow> error + heading" where
  "link_heading link d =
     (case link of
        Text v \<Rightarrow> Inl TypeError
      | Element tag ps [] \<Rightarrow> Inl TypeError
      | Element tag ps (c # cs) \<Rightarrow>
         (case map_of ps ''href'' of
            None \<Rightarrow> Inl TypeError
          | Some href \<Rightarrow>
              Inr \<lparr>depth = d,
                   h_text = (case c of Text v \<Rightarrow> Some v | Element t q k \<Rightarrow> None),
                   slug = drop 1 href\<rparr>))"

text \<open>
  \<open>listElementToTree\<close>: \<^verbatim>\<open>ol.children.flatMap\<close> over the list items; of each item the
  first child is the link and the second, when there is one, the nested list.
\<close>

fun listElementToTree :: "hnode \<Rightarrow> nat \<Rightarrow> error + heading list"
  and list_items :: "hnode list \<Rightarrow> nat \<Rightarrow> error + heading list"
  and list_item :: "hnode \<Rightarrow> nat \<Rightarrow> error + heading list"
where
  "listElementToTree (Text v) d = Inl TypeError"
| "listElementToTree (Element tag ps lis) d = list_items lis d"
| "list_items [] d = Inr []"
| "list_items (li # lis) d =
     (case list_item li d of
        Inl e \<Rightarrow> Inl e
      | Inr hs \<Rightarrow> (case list_items lis d of Inl e \<Rightarrow> Inl e | Inr hs1 \<Rightarrow> Inr (hs @ hs1)))"
| "list_item (Text v) d = Inl TypeError"
| "list_item (Element tag ps []) d = Inl TypeError"
| "list_item (Element tag ps (link # rest)) d =
     (case link_heading link d of
        Inl e \<Rightarrow> Inl e
      | Inr currentHeading \<Rightarrow>
         (case rest of
            [] \<Rightarrow> Inr [currentHeading]
          | subList # others \<Rightarrow>
             (case listElementToTree subList (d + 1) of
                Inl e \<Rightarrow> Inl e
              | Inr hs \<Rightarrow> Inr (currentHeading # hs))))"

definition extractTocHeadings :: "hnode \<Rightarrow> error + heading list" where
  "extractTocHeadings toc =
     (case toc of
        Text v \<Rightarrow> Inl (ExpectedNav None)
      | Element tag ps cs \<Rightarrow>
          if tag \<noteq> ''nav'' then Inl (ExpectedNav (Some tag))
          else (case cs of [] \<Rightarrow> Inl TypeError | ol # others \<Rightarrow> listElementToTree ol 0))"

text \<open>\<open>customizeTOC\<close> of \<open>buildProcessor\<close>: it assigns the headings and returns
  \<^verbatim>\<open>false\<close>, here \<open>None\<close>: no node to insert.\<close>

definition customizeTOC :: "hnode \<Rightarrow> error + (heading list \<times> hnode option)" where
  "customizeTOC toc =
     (case extractTocHeadings toc of Inl e \<Rightarrow> Inl e | Inr hs \<Rightarrow> Inr (hs, None))"

section \<open>render.ts: assets and blocks\<close>

text \<open>
  An asset object by its \<open>type\<close>: \<open>Hosted url\<close> is \<^verbatim>\<open>{ type: 'file', file: { url } }\<close>.
  The other fields of the object are copied by the spreads of the source and are left
  out. \<^verbatim>\<open>null\<close> is \<open>None\<close>.
\<close>

datatype asset = External string | Hosted string | Emoji string | CustomEmoji string

text \<open>The private state of a renderer (\<open>#assetPaths\<close>, \<open>#assetAnalytics\<close>), the
  file system with the writes under way, the lines of \<^verbatim>\<open>logger.error\<close> and the
  requests made with \<^verbatim>\<open>fetch\<close>.\<close>

record rstate =
  r_fs :: filesystem
  r_pending :: pending
  r_assetPaths :: "string list"
  downloads :: nat
  cachedHits :: nat
  r_errors :: "error list"
  r_requests :: "string list"

definition count_tag :: "tag \<Rightarrow> rstate \<Rightarrow> rstate" where
  "count_tag t st =
     (case t of Download \<Rightarrow> st\<lparr>downloads := downloads st + 1\<rparr>
              | Cached \<Rightarrow> st\<lparr>cachedHits := cachedHits st + 1\<rparr>)"

text \<open>The writes under way after a call of \<open>downloadFile\<close>: the call was one of
  those that the earlier writes were to miss, and the write that it started comes last.\<close>

definition after_call :: "platform \<Rightarrow> pending \<Rightarrow> (fpath \<times> string) option \<Rightarrow> pending" where
  "after_call env ws begun =
     map (\<lambda>(k, p, bytes). (k - 1, p, bytes)) ws
     @ (case begun of None \<Rightarrow> [] | Some (p, bytes) \<Rightarrow> [(write_lag env p, p, bytes)])"

text \<open>\<open>#fetchAsset\<close>. Whatever is raised inside it is caught, logged, and the object
  is returned as it came. When \<open>downloadFile\<close> has been called, the writes under way
  are one call further.\<close>

definition fetchAsset ::
  "platform \<Rightarrow> fpath \<Rightarrow> bool \<Rightarrow> asset option \<Rightarrow> rstate \<Rightarrow> asset option \<times> rstate" where
  "fetchAsset env assetPath resolvePath fileObject st =
     (case fileObject of
        Some (Hosted url) \<Rightarrow>
          (case ensureDirSync (r_fs st) assetPath of
             Inl e \<Rightarrow> (fileObject, st\<lparr>r_errors := r_errors st @ [e]\<rparr>)
           | Inr fs1 \<Rightarrow>
              (let d = downloadFile env fs1 url assetPath False;
                   (fs2, ws) = land_writes (dl_fs d) (after_call env (r_pending st) (dl_write d));
                   st1 = st\<lparr>r_fs := fs2, r_pending := ws,
                            r_requests := r_requests st @ dl_requests d\<rparr>
               in case dl_ret d of
                    Inl e \<Rightarrow> (fileObject, st1\<lparr>r_errors := r_errors st1 @ [e]\<rparr>)
                  | Inr s \<Rightarrow>
                      (Some (Hosted (if resolvePath then resolveAssetPath env (relPath s)
                                     else relPath s)),
                       (count_tag (tagged s) st1)
                         \<lparr>r_assetPaths := r_assetPaths st1 @ [relPath s]\<rparr>)))
      | _ \<Rightarrow> (fileObject, st))"

text \<open>
  The payload of a block by its type; the five types of the \<^verbatim>\<open>switch\<close> carry an
  asset object (the icon, for a callout).
\<close>

datatype payload =
    FileB "asset option"
  | ImageB "asset option"
  | VideoB "asset option"
  | AudioB "asset option"
  | CalloutB "asset option"
  | OtherB string

text \<open>
  A block as the API holds it: whether \<^verbatim>\<open>isFullBlock\<close> accepts it, its id, its
  \<open>has_children\<close> flag, its payload, and what
  \<^verbatim>\<open>iteratePaginatedAPI(client.blocks.children.list, { block_id })\<close> yields for its id:
  the items, and then the end (\<open>None\<close>) or an error of the client.
\<close>

datatype rblock = RBlock bool string bool payload "rblock list" "error option"

text \<open>A block as yielded: the children are there when the flag was set.\<close>

datatype block = Block string bool payload "block list option"

definition resolve_payload ::
  "platform \<Rightarrow> fpath \<Rightarrow> payload \<Rightarrow> rstate \<Rightarrow> payload \<times> rstate" where
  "resolve_payload env assetPath pl st =
     (case pl of
        FileB a \<Rightarrow> (let (a1, st1) = fetchAsset env assetPath True a st in (FileB a1, st1))
      | ImageB a \<Rightarrow> (let (a1, st1) = fetchAsset env assetPath False a st in (ImageB a1, st1))
      | VideoB a \<Rightarrow> (let (a1, st1) = fetchAsset env assetPath True a st in (VideoB a1, st1))
      | AudioB a \<Rightarrow> (let (a1, st1) = fetchAsset env assetPath True a st in (AudioB a1, st1))
      | CalloutB a \<Rightarrow>
          (let (a1, st1) = fetchAsset env assetPath False a st in (CalloutB a1, st1))
      | OtherB x \<Rightarrow> (OtherB x, st))"

text \<open>\<open>fetchBlocks\<close> with \<open>awaitAll\<close>: the blocks of one listing, collected; an error
  of the listing ends it, and what was collected is lost.\<close>

fun fetchBlocks ::
  "platform \<Rightarrow> fpath \<Rightarrow> rblock list \<Rightarrow> error option \<Rightarrow> rstate \<Rightarrow> (error + block list) \<times> rstate"
where
  "fetchBlocks env assetPath [] None st = (Inr [], st)"
| "fetchBlocks env assetPath [] (Some e) st = (Inl e, st)"
| "fetchBlocks env assetPath (RBlock full bid hc pl items fin # rest) en st =
     (if \<not> full then fetchBlocks env assetPath rest en st
      else case (if hc
                 then (case fetchBlocks env assetPath items fin st of
                         (Inl e, st1) \<Rightarrow> (Inl e, st1)
                       | (Inr cs, st1) \<Rightarrow> (Inr (Some cs), st1))
                 else (Inr None, st)) of
             (Inl e, st1) \<Rightarrow> (Inl e, st1)
           | (Inr children, st1) \<Rightarrow>
              (case resolve_payload env assetPath pl st1 of
                 (pl1, st2) \<Rightarrow>
                   (case fetchBlocks env assetPath rest en st2 of
                      (Inl e, st3) \<Rightarrow> (Inl e, st3)
                    | (Inr bs, st3) \<Rightarrow> (Inr (Block bid hc pl1 children # bs), st3))))"

section \<open>render.ts: the renderer of a page\<close>

datatype property = FilesProp "asset option list" | OtherProp string

record page =
  page_id :: string
  last_edited_time :: string
  cover :: "asset option"
  icon :: "asset option"
  properties :: "(string \<times> property) list"

text \<open>\<^verbatim>\<open>{ id: page.id, data: { ...page, icon, cover, properties } }\<close>.\<close>

record pdata =
  pd_id :: string
  pd_data :: page

fun fetchAssets ::
  "platform \<Rightarrow> fpath \<Rightarrow> asset option list \<Rightarrow> rstate \<Rightarrow> asset option list \<times> rstate" where
  "fetchAssets env assetPath [] st = ([], st)"
| "fetchAssets env assetPath (f # files) st =
     (case fetchAsset env assetPath True f st of
        (f1, st1) \<Rightarrow>
          (case fetchAssets env assetPath files st1 of
             (files1, st2) \<Rightarrow> (f1 # files1, st2)))"

fun file_properties ::
  "platform \<Rightarrow> fpath \<Rightarrow> (string \<times> property) list \<Rightarrow> rstate
     \<Rightarrow> (string \<times> property) list \<times> rstate" where
  "file_properties env assetPath [] st = ([], st)"
| "file_properties env assetPath ((name, FilesProp files) # ps) st =
     (case fetchAssets env assetPath files st of
        (files1, st1) \<Rightarrow>
          (case file_properties env assetPath ps st1 of
             (ps1, st2) \<Rightarrow> ((name, FilesProp files1) # ps1, st2)))"
| "file_properties env assetPath ((name, OtherProp x) # ps) st =
     (case file_properties env assetPath ps st of
        (ps1, st1) \<Rightarrow> ((name, OtherProp x) # ps1, st1))"

text \<open>\<open>#getPageData\<close>: the cover, the icon, then the files of the properties. The
  source starts the files of one property together (\<^verbatim>\<open>Promise.all\<close>); the model
  resolves one asset after the other. (Started together, every call looks for its file
  before any of them has written: two files of one property with the same path are both
  downloaded, as they are in the model when the write of the first misses the second
  call.)\<close>

definition getPageData :: "platform \<Rightarrow> fpath \<Rightarrow> page \<Rightarrow> rstate \<Rightarrow> pdata \<times> rstate" where
  "getPageData env assetPath pg st =
     (case fetchAsset env assetPath True (cover pg) st of
        (cover1, st1) \<Rightarrow>
          (case fetchAsset env assetPath True (icon pg) st1 of
             (icon1, st2) \<Rightarrow>
               (case file_properties env assetPath (properties pg) st2 of
                  (props1, st3) \<Rightarrow>
                    (\<lparr>pd_id = page_id pg,
                      pd_data = pg\<lparr>cover := cover1, icon := icon1, properties := props1\<rparr>\<rparr>,
                     st3))))"

text \<open>
  The stages of the processor that other packages supply. \<open>notionRehype\<close> stands for
  the parser with the two stages after it (slugs, mathematics); \<open>createTOC\<close> is the
  node that the contents stage hands to \<open>customizeTOC\<close> (\<open>None\<close> when it calls no
  hook) and \<open>insertTOC\<close> what it does with a node that the hook returns; \<open>plugins\<close>
  are the stages of the caller, in order; \<open>rehypeStringify\<close> is the compiler.
\<close>

record stages =
  notionRehype :: "block list \<Rightarrow> error + hnode list"
  createTOC :: "hnode list \<Rightarrow> hnode option"
  insertTOC :: "hnode \<Rightarrow> hnode list \<Rightarrow> hnode list"
  plugins :: "(hnode list \<Rightarrow> error + hnode list) list"
  rehypeStringify :: "hnode list \<Rightarrow> string"

text \<open>The contents stage with the hook of \<open>buildProcessor\<close>: the tree after it, and
  the value of the shared variable \<open>headings\<close>.\<close>

definition rehypeToc ::
  "stages \<Rightarrow> hnode list \<Rightarrow> heading list \<Rightarrow> (error + hnode list) \<times> heading list" where
  "rehypeToc sg tree hs0 =
     (case createTOC sg tree of
        None \<Rightarrow> (Inr tree, hs0)
      | Some toc \<Rightarrow>
         (case customizeTOC toc of
            Inl e \<Rightarrow> (Inl e, hs0)
          | Inr (hs, ret) \<Rightarrow>
              (Inr (case ret of None \<Rightarrow> tree | Some n \<Rightarrow> insertTOC sg n tree), hs)))"

fun run_plugins :: "(hnode list \<Rightarrow> error + hnode list) list \<Rightarrow> hnode list \<Rightarrow> error + hnode list"
where
  "run_plugins [] tree = Inr tree"
| "run_plugins (f # fs) tree =
     (case f tree of Inl e \<Rightarrow> Inl e | Inr tree1 \<Rightarrow> run_plugins fs tree1)"

text \<open>\<open>process\<close> of \<open>buildProcessor\<close>: the markup or the error of a stage, and the
  variable \<open>headings\<close> after the run. On success the function returns that variable.\<close>

definition process ::
  "platform \<Rightarrow> stages \<Rightarrow> heading list \<Rightarrow> block list \<Rightarrow> string list
     \<Rightarrow> (error + string) \<times> heading list" where
  "process env sg hs0 blocks paths =
     (case notionRehype sg blocks of
        Inl e \<Rightarrow> (Inl e, hs0)
      | Inr t0 \<Rightarrow>
         (case rehypeToc sg t0 hs0 of
            (Inl e, hs) \<Rightarrow> (Inl e, hs)
          | (Inr t1, hs) \<Rightarrow>
             (case run_plugins (plugins sg) t1 of
                Inl e \<Rightarrow> (Inl e, hs)
              | Inr t2 \<Rightarrow>
                 (case rehypeAssets env paths t2 of
                    Inl e \<Rightarrow> (Inl e, hs)
                  | Inr t3 \<Rightarrow> (Inr (rehypeStringify sg t3), hs)))))"

record rendered =
  html :: string
  imagePaths :: "string list"
  headings :: "heading list"
  blocks :: "block list"

text \<open>What \<open>render\<close> resolves to: both fields, or neither (\<^verbatim>\<open>{}\<close>).\<close>

record render_result =
  data :: "pdata option"
  rendered :: "rendered option"

text \<open>What outlives a render: the file system with the writes under way, the shared
  variable \<open>headings\<close>, the lines of \<^verbatim>\<open>logger.error\<close> and the requests made with
  \<^verbatim>\<open>fetch\<close>.\<close>

record world =
  w_fs :: filesystem
  w_pending :: pending
  w_headings :: "heading list"
  w_errors :: "error list"
  w_requests :: "string list"

text \<open>The API client, as far as the renderer uses it: what
  \<^verbatim>\<open>iteratePaginatedAPI(client.blocks.children.list, { block_id: page.id })\<close> yields.\<close>

record client =
  children_list :: "string \<Rightarrow> rblock list \<times> error option"

definition world_of :: "rstate \<Rightarrow> heading list \<Rightarrow> world" where
  "world_of st hs =
     \<lparr>w_fs = r_fs st, w_pending = r_pending st, w_headings = hs, w_errors = r_errors st,
      w_requests = r_requests st\<rparr>"

text \<open>\<open>NotionPageRenderer.render\<close>: the three steps inside \<^verbatim>\<open>try\<close>; the
  \<^verbatim>\<open>catch\<close> logs the error and returns \<^verbatim>\<open>{}\<close>.\<close>

text \<open>The state of a new renderer in a world.\<close>

definition renderer_state :: "world \<Rightarrow> rstate" where
  "renderer_state w =
     \<lparr>r_fs = w_fs w, r_pending = w_pending w, r_assetPaths = [], downloads = 0,
      cachedHits = 0, r_errors = w_errors w, r_requests = w_requests w\<rparr>"

definition render ::
  "platform \<Rightarrow> client \<Rightarrow> stages \<Rightarrow> fpath \<Rightarrow> page \<Rightarrow> world \<Rightarrow> render_result \<times> world" where
  "render env cl sg assetPath pg w =
     (let st0 = renderer_state w
      in case getPageData env assetPath pg st0 of
        (d, st1) \<Rightarrow>
          (case children_list cl (page_id pg) of
             (items, fin) \<Rightarrow>
               (case fetchBlocks env assetPath items fin st1 of
                  (Inl e, st2) \<Rightarrow>
                    (\<lparr>data = None, rendered = None\<rparr>,
                     world_of (st2\<lparr>r_errors := r_errors st2 @ [e]\<rparr>) (w_headings w))
                | (Inr bs, st2) \<Rightarrow>
                    (case process env sg (w_headings w) bs (r_assetPaths st2) of
                       (Inl e, hs) \<Rightarrow>
                         (\<lparr>data = None, rendered = None\<rparr>,
                          world_of (st2\<lparr>r_errors := r_errors st2 @ [e]\<rparr>) hs)
                     | (Inr markup, hs) \<Rightarrow>
                         (\<lparr>data = Some d,
                           rendered = Some \<lparr>html = markup, imagePaths = r_assetPaths st2,
                                            headings = hs, blocks = bs\<rparr>\<rparr>,
                          world_of st2 hs)))))"

section \<open>The loader\<close>

text \<open>An item of the enumeration of the database: a full page, or a record that
  \<^verbatim>\<open>isFullPage\<close> rejects, of which only the id matters.\<close>

datatype remote_item = FullPage page | PartialPage string

record entry =
  e_id :: string
  digest :: string
  e_data :: pdata
  e_rendered :: rendered
  e_filePath :: string
  assetImports :: "string list"

text \<open>The store, a keyed map in insertion order. \<^verbatim>\<open>store.get\<close> is \<^const>\<open>map_of\<close>,
  \<^verbatim>\<open>store.set\<close> is \<^const>\<open>AList.update\<close>, \<^verbatim>\<open>store.delete\<close> is \<^const>\<open>AList.delete\<close>.\<close>

type_synonym store = "(string \<times> entry) list"

datatype store_op = Set_entry entry | Delete_entry string

datatype page_log = Updated string | Created string | Skipped string | Deleted string

text \<open>
  What the loader is built from: the renderer of a page, \<open>parseData\<close> of the content
  layer (\<open>None\<close> when it rejects), and the environment variable of the override
  (\<open>None\<close> when unset).
\<close>

record loader =
  render_page :: "page \<Rightarrow> world \<Rightarrow> render_result \<times> world"
  parseData :: "pdata \<Rightarrow> pdata option"
  FORCE_RERENDER :: "string option"

definition truthy :: "string option \<Rightarrow> bool" where
  "truthy v = (case v of None \<Rightarrow> False | Some s \<Rightarrow> s \<noteq> [])"

text \<open>
  The state of one run of \<open>load\<close>: the store, the local variables \<open>cachedPageIds\<close>,
  \<open>pageCount\<close> and \<open>renderers\<close> (the pages whose render was started, in order), the
  lines logged per page, the calls of \<^verbatim>\<open>store.set\<close> and \<^verbatim>\<open>store.delete\<close> in order, the
  world, and the errors with which promises of the run rejected.
\<close>

record lstate =
  l_store :: store
  cachedPageIds :: "string list"
  pageCount :: nat
  renderers :: "page list"
  l_log :: "page_log list"
  l_writes :: "store_op list"
  l_world :: world
  l_rejected :: "error list"

text \<open>The body of the loop over the pages, for a full page.\<close>

definition load_page :: "loader \<Rightarrow> lstate \<Rightarrow> page \<Rightarrow> lstate" where
  "load_page ld st pg =
     (let cachedPage = map_of (l_store st) (page_id pg);
          isCached = (page_id pg \<in> set (cachedPageIds st));
          st1 = st\<lparr>pageCount := pageCount st + 1,
                   cachedPageIds := removeAll (page_id pg) (cachedPageIds st)\<rparr>
      in if map_option digest cachedPage \<noteq> Some (last_edited_time pg)
            \<or> truthy (FORCE_RERENDER ld)
         then st1\<lparr>renderers := renderers st1 @ [pg],
                  l_log := l_log st1 @ [if isCached then Updated (page_id pg)
                                        else Created (page_id pg)]\<rparr>
         else st1\<lparr>l_log := l_log st1 @ [Skipped (page_id pg)]\<rparr>)"

fun load_pages :: "loader \<Rightarrow> lstate \<Rightarrow> remote_item list \<Rightarrow> lstate" where
  "load_pages ld st [] = st"
| "load_pages ld st (PartialPage i # items) = load_pages ld st items"
| "load_pages ld st (FullPage pg # items) = load_pages ld (load_page ld st pg) items"

text \<open>The loop over what is left of \<open>cachedPageIds\<close>.\<close>

fun delete_pages :: "string list \<Rightarrow> lstate \<Rightarrow> lstate" where
  "delete_pages [] st = st"
| "delete_pages (deletedPageId # ids) st =
     delete_pages ids
       (st\<lparr>l_store := AList.delete deletedPageId (l_store st),
           l_writes := l_writes st @ [Delete_entry deletedPageId],
           l_log := l_log st @ [Deleted deletedPageId]\<rparr>)"

text \<open>The continuation of the render of one page: nothing when a field of the result
  is missing, else \<open>parseData\<close> and \<^verbatim>\<open>store.set\<close>.\<close>

definition settle :: "loader \<Rightarrow> page \<Rightarrow> lstate \<Rightarrow> lstate" where
  "settle ld pg st =
     (case render_page ld pg (l_world st) of
        (res, w1) \<Rightarrow>
          (let st1 = st\<lparr>l_world := w1\<rparr> in
           case data res of
             None \<Rightarrow> st1
           | Some d \<Rightarrow>
              (case rendered res of
                 None \<Rightarrow> st1
               | Some r \<Rightarrow>
                  (case parseData ld d of
                     None \<Rightarrow> st1\<lparr>l_rejected := l_rejected st1 @ [StageError ''parseData'']\<rparr>
                   | Some parsed \<Rightarrow>
                      (let e = \<lparr>e_id = page_id pg, digest = last_edited_time pg,
                                e_data = parsed, e_rendered = r,
                                e_filePath = VIRTUAL_CONTENT_ROOT @ ''/'' @ page_id pg @ ''.md'',
                                assetImports = imagePaths r\<rparr>
                       in st1\<lparr>l_store := AList.update (page_id pg) e (l_store st1),
                              l_writes := l_writes st1 @ [Set_entry e]\<rparr>)))))"

fun settle_all :: "loader \<Rightarrow> page list \<Rightarrow> lstate \<Rightarrow> lstate" where
  "settle_all ld [] st = st"
| "settle_all ld (pg # pgs) st = settle_all ld pgs (settle ld pg st)"

text \<open>
  \<open>load\<close>, on what the enumeration of the database yields: the items, and then the end
  (\<open>None\<close>) or an error of the client. In the source the renders that the loop
  starts run while the loop goes on, and are awaited together at the end. A render
  reads and writes no entry of the store but that of its own page, and the loop of the
  deletions touches no id of an enumerated full page; the model runs each render as a
  whole, one after the other in the order in which they were started, when the loop
  over the pages and the loop of the deletions are done. An error of the enumeration
  leaves \<open>load\<close> before the deletions; the renders already started still settle.
\<close>

definition load ::
  "loader \<Rightarrow> remote_item list \<Rightarrow> error option \<Rightarrow> store \<Rightarrow> world \<Rightarrow> lstate" where
  "load ld items fin store0 w =
     (let st0 = \<lparr>l_store = store0, cachedPageIds = remdups (map fst store0), pageCount = 0,
                 renderers = [], l_log = [], l_writes = [], l_world = w, l_rejected = []\<rparr>;
          st1 = load_pages ld st0 items
      in case fin of
           Some e \<Rightarrow> settle_all ld (renderers st1) (st1\<lparr>l_rejected := [e]\<rparr>)
         | None \<Rightarrow> settle_all ld (renderers st1) (delete_pages (cachedPageIds st1) st1))"

text \<open>The loader of \<open>notionLoader\<close>: its renderer is \<open>render\<close> with the asset
  directory \<^verbatim>\<open>path.resolve(process.cwd(), 'src', assetPath)\<close>.\<close>

definition notionLoader ::
  "platform \<Rightarrow> client \<Rightarrow> stages \<Rightarrow> string \<Rightarrow> (pdata \<Rightarrow> pdata option) \<Rightarrow> string option \<Rightarrow> loader"
where
  "notionLoader env cl sg assetPath parse force =
     \<lparr>render_page =
        render env cl sg (path_resolve (path_resolve (cwd env) ''src'') assetPath),
      parseData = parse, FORCE_RERENDER = force\<rparr>"

section \<open>Notions of the statements\<close>


text \<open>Every listing that \<open>fetchBlocks\<close> requests ends without an error of the
  client.\<close>

fun listings_end :: "rblock list \<Rightarrow> error option \<Rightarrow> bool" where
  "listings_end [] fin = (fin = None)"
| "listings_end (RBlock full bid hc pl items fin1 # rest) fin =
     ((if full \<and> hc then listings_end items fin1 else True) \<and> listings_end rest fin)"

text \<open>The full pages of an enumeration, and their ids.\<close>

fun full_pages :: "remote_item list \<Rightarrow> page list" where
  "full_pages [] = []"
| "full_pages (PartialPage i # items) = full_pages items"
| "full_pages (FullPage pg # items) = pg # full_pages items"

definition full_ids :: "remote_item list \<Rightarrow> string list" where
  "full_ids items = map page_id (full_pages items)"

text \<open>The test of \<open>load_page\<close>: the stored digest differs from the time of the last
  edit (or there is no entry), or the override is set.\<close>

definition changed :: "loader \<Rightarrow> store \<Rightarrow> page \<Rightarrow> bool" where
  "changed ld s pg =
     (map_option digest (map_of s (page_id pg)) \<noteq> Some (last_edited_time pg)
      \<or> truthy (FORCE_RERENDER ld))"

text \<open>The render of a page, started in a world, ends in \<^verbatim>\<open>store.set\<close>; it ends in a
  rejection of \<open>parseData\<close>.\<close>

definition stores :: "loader \<Rightarrow> page \<Rightarrow> world \<Rightarrow> bool" where
  "stores ld pg w =
     (case data (fst (render_page ld pg w)) of
        None \<Rightarrow> False
      | Some d \<Rightarrow>
         (case rendered (fst (render_page ld pg w)) of
            None \<Rightarrow> False
          | Some r \<Rightarrow> parseData ld d \<noteq> None))"

definition rejects :: "loader \<Rightarrow> page \<Rightarrow> world \<Rightarrow> bool" where
  "rejects ld pg w =
     (case data (fst (render_page ld pg w)) of
        None \<Rightarrow> False
      | Some d \<Rightarrow>
         (case rendered (fst (render_page ld pg w)) of
            None \<Rightarrow> False
          | Some r \<Rightarrow> parseData ld d = None))"

text \<open>The pages whose render a run starts, the ids that a run deletes, and the state
  in which a run begins.\<close>

definition started :: "loader \<Rightarrow> store \<Rightarrow> remote_item list \<Rightarrow> page list" where
  "started ld s items = filter (changed ld s) (full_pages items)"

definition unseen :: "store \<Rightarrow> remote_item list \<Rightarrow> string list" where
  "unseen s items = filter (\<lambda>i. i \<notin> set (full_ids items)) (remdups (map fst s))"

definition first_state :: "store \<Rightarrow> world \<Rightarrow> lstate" where
  "first_state s w =
     \<lparr>l_store = s, cachedPageIds = remdups (map fst s), pageCount = 0, renderers = [],
      l_log = [], l_writes = [], l_world = w, l_rejected = []\<rparr>"

text \<open>
  An item of a table of contents (display text, slug, nested items), the outline of a
  list of items as the specification words it (the items in document order, each with
  its depth, before its nested items), and the navigation list of the items as the
  contents stage builds it: \<^verbatim>\<open>nav > ol > li > a[href=#slug] > text\<close>, with the nested
  list after the link.
\<close>

datatype toc_item = Item string string "toc_item list"

fun outline :: "nat \<Rightarrow> toc_item list \<Rightarrow> heading list" where
  "outline d [] = []"
| "outline d (Item t s subs # items) =
     \<lparr>depth = d, h_text = Some t, slug = s\<rparr> # outline (d + 1) subs @ outline d items"

fun nav_item :: "toc_item \<Rightarrow> hnode" where
  "nav_item (Item t s subs) =
     Element ''li'' []
       (Element ''a'' [(''href'', CHR ''#'' # s)] [Text t]
        # (if subs = [] then [] else [Element ''ol'' [] (map nav_item subs)]))"

definition nav_of :: "toc_item list \<Rightarrow> hnode" where
  "nav_of items = Element ''nav'' [] [Element ''ol'' [] (map nav_item items)]"

text \<open>A chain of blocks, each the only child of the one before, of a given depth, and
  what the fetch yields for it.\<close>

fun chain :: "nat \<Rightarrow> rblock list" where
  "chain 0 = []"
| "chain (Suc n) = [RBlock True ''block'' True (OtherB ''paragraph'') (chain n) None]"

fun chain_fetched :: "nat \<Rightarrow> block list" where
  "chain_fetched 0 = []"
| "chain_fetched (Suc n) = [Block ''block'' True (OtherB ''paragraph'') (Some (chain_fetched n))]"

section \<open>Inputs of the examples\<close>

text \<open>
  A platform for the examples. Its \<open>url_pathname\<close> reads URLs of the form
  \<^verbatim>\<open>scheme://authority/path?query#fragment\<close> whose path needs no normalisation; its
  \<open>fetch\<close> always answers, its \<open>decodeURI\<close> finds nothing to decode, and the next
  call of \<open>downloadFile\<close> finds every file written.
\<close>

definition example_url_pathname :: "string \<Rightarrow> string option" where
  "example_url_pathname u =
     (let rest = dropWhile (\<lambda>c. c \<noteq> CHR '':'') u in
      if prefix ''://'' rest
      then (let p = dropWhile (\<lambda>c. c \<noteq> CHR ''/'')
                      (takeWhile (\<lambda>c. c \<noteq> CHR ''?'' \<and> c \<noteq> CHR ''#'') (drop 3 rest))
            in Some (if p = [] then ''/'' else p))
      else None)"

definition example_platform :: platform where
  "example_platform =
     \<lparr>url_pathname = example_url_pathname,
      fetch = (\<lambda>u. Some ''bytes''),
      decodeURI = Some,
      stringify_hint = (\<lambda>ps i. concat (map (\<lambda>kv. fst kv @ ''='' @ snd kv @ '';'') ps)
                                @ ''index='' @ replicate i CHR ''I''),
      cwd = [''site''],
      write_lag = (\<lambda>p. 0)\<rparr>"

definition example_root :: fpath where
  "example_root = [''site'', ''src'', ''assets'', ''notion'']"

definition example_fs :: filesystem where
  "example_fs = (\<lambda>p. if prefix p example_root then Some Dir else None)"

definition example_url :: string where
  "example_url = ''https://files.example/ed3b/d161/image.png?X-Amz-Signature=1''"

definition example_url_rotated :: string where
  "example_url_rotated = ''https://files.example/ed3b/d161/image.png?X-Amz-Signature=2''"

definition example_url_short :: string where
  "example_url_short = ''https://files.example/only/two.png''"

text \<open>The same platform when a write misses the next call of \<open>downloadFile\<close>, and
  a page whose cover and icon are the same file under two signatures.\<close>

definition example_slow :: platform where
  "example_slow = example_platform\<lparr>write_lag := (\<lambda>p. 1)\<rparr>"

definition example_twice :: page where
  "example_twice =
     \<lparr>page_id = ''A'', last_edited_time = ''t1'', cover = Some (Hosted example_url),
      icon = Some (Hosted example_url_rotated), properties = []\<rparr>"

definition example_world :: world where
  "example_world =
     \<lparr>w_fs = example_fs, w_pending = [], w_headings = [], w_errors = [], w_requests = []\<rparr>"

text \<open>A file system in which a regular file stands where the asset directory should
  be created.\<close>

definition example_blocked :: rstate where
  "example_blocked =
     \<lparr>r_fs = (\<lambda>p. if p = [''site''] then Some (File []) else None), r_pending = [],
      r_assetPaths = [], downloads = 0, cachedHits = 0, r_errors = [], r_requests = []\<rparr>"

definition example_page :: "string \<Rightarrow> string \<Rightarrow> page" where
  "example_page i t =
     \<lparr>page_id = i, last_edited_time = t, cover = None, icon = None, properties = []\<rparr>"

definition example_entry :: "string \<Rightarrow> string \<Rightarrow> entry" where
  "example_entry i t =
     \<lparr>e_id = i, digest = t, e_data = \<lparr>pd_id = i, pd_data = example_page i t\<rparr>,
      e_rendered = \<lparr>html = [], imagePaths = [], headings = [], blocks = []\<rparr>,
      e_filePath = ''src/content/notion/'' @ i @ ''.md'', assetImports = []\<rparr>"

text \<open>A client whose listing fails for the page \<open>''bad''\<close> and is empty for every
  other page, and stages that turn every list of blocks into the empty tree.\<close>

definition example_client :: client where
  "example_client =
     \<lparr>children_list = (\<lambda>i. if i = ''bad'' then ([], Some (ApiError i)) else ([], None))\<rparr>"

definition example_stages :: stages where
  "example_stages =
     \<lparr>notionRehype = (\<lambda>bs. Inr []),
      createTOC = (\<lambda>t. Some (Element ''nav'' [] [Element ''ol'' [] []])),
      insertTOC = (\<lambda>n t. n # t),
      plugins = [],
      rehypeStringify = (\<lambda>t. [])\<rparr>"

definition example_loader :: loader where
  "example_loader =
     notionLoader example_platform example_client example_stages ''assets/notion'' Some None"

text \<open>
  A page with two images of one file: the URL of the first has a signature that ends in
  a percent sign, \<^verbatim>\<open>fetch\<close> fails for it, and \<^verbatim>\<open>decodeURI\<close> throws on it (as it does on
  a percent sign that starts no escape); the URL of the second is served. The parser
  makes an \<open>img\<close> of every image block, with the URL of its asset object as the
  source; there is no table of contents.
\<close>

definition example_url_expired :: string where
  "example_url_expired = ''https://files.example/ed3b/d161/image.png?X-Amz-Signature=%''"

definition example_flaky :: platform where
  "example_flaky =
     example_platform
       \<lparr>fetch := (\<lambda>u. if u = example_url_expired then None else Some ''bytes''),
        decodeURI := (\<lambda>s. if CHR ''%'' \<in> set s then None else Some s)\<rparr>"

fun asset_url :: "asset option \<Rightarrow> string" where
  "asset_url (Some (Hosted u)) = u"
| "asset_url (Some (External u)) = u"
| "asset_url a = []"

fun example_image :: "block \<Rightarrow> hnode" where
  "example_image (Block bid hc (ImageB a) cs) = Element ''img'' [(''src'', asset_url a)] []"
| "example_image b = Text []"

definition example_gallery :: client where
  "example_gallery =
     \<lparr>children_list = (\<lambda>i.
        ([RBlock True ''b1'' False (ImageB (Some (Hosted example_url_expired))) [] None,
          RBlock True ''b2'' False (ImageB (Some (Hosted example_url))) [] None], None))\<rparr>"

definition example_gallery_stages :: stages where
  "example_gallery_stages =
     \<lparr>notionRehype = (\<lambda>bs. Inr (map example_image bs)),
      createTOC = (\<lambda>t. None),
      insertTOC = (\<lambda>n t. n # t),
      plugins = [],
      rehypeStringify = (\<lambda>t. [])\<rparr>"

definition example_gallery_loader :: loader where
  "example_gallery_loader =
     notionLoader example_flaky example_gallery example_gallery_stages ''assets/notion'' Some None"

definition example_toc :: "toc_item list" where
  "example_toc = [Item ''Intro'' ''intro'' [Item ''Sub'' ''sub'' []], Item ''End'' ''end'' []]"

lemmas example_defs = example_platform_def example_url_pathname_def example_root_def example_fs_def

lemmas downloadFile_eval = downloadFile_def existsSync_def url_segments_def filter_Boolean_def
  path_resolve_def path_step_def ensureDirSync_def is_file_def VIRTUAL_CONTENT_ROOT_def
  path_relative_def writeFile_def

section \<open>Splitting and paths\<close>





lemma url_segments_Inr:
  "url_segments pn = Inr (p, ob, f) \<Longrightarrow>
     (\<exists>rest. filter_Boolean (split_on CHR ''/'' pn) = p # ob # f # rest)"
  by (auto simp: url_segments_def split: list.splits)


section \<open>The asset cache\<close>

text \<open>What a successful call has done.\<close>

lemma downloadFile_Inr:
  assumes "dl_ret (downloadFile env fs url root ic) = Inr s"
  shows "\<exists>pn p ob f fs1.
           existsSync fs root \<and> url_pathname env url = Some pn \<and>
           url_segments pn = Inr (p, ob, f) \<and>
           ensureDirSync fs (path_resolve root ob) = Inr fs1 \<and>
           filePath s = path_resolve (path_resolve root ob) f \<and>
           relPath s = path_relative (path_resolve (cwd env) VIRTUAL_CONTENT_ROOT) (filePath s) \<and>
           dl_fs (downloadFile env fs url root ic) = fs1 \<and>
           (tagged s = Cached \<longrightarrow> \<not> ic \<and> existsSync fs1 (filePath s) \<and>
              dl_write (downloadFile env fs url root ic) = None \<and>
              dl_requests (downloadFile env fs url root ic) = []) \<and>
           (tagged s = Download \<longrightarrow> (ic \<or> \<not> existsSync fs1 (filePath s)) \<and>
              (\<exists>bytes. fetch env url = Some bytes \<and>
                 dl_write (downloadFile env fs url root ic) = Some (filePath s, bytes)) \<and>
              dl_requests (downloadFile env fs url root ic) = [url])"
  using assms
  by (auto simp: downloadFile_def Let_def split: if_splits option.splits sum.splits prod.splits)

lemma ensureDirSync_Inr:
  "ensureDirSync fs p = Inr fs1 \<Longrightarrow>
     fs1 = (\<lambda>q. if prefix q p then Some Dir else fs q) \<and> (\<forall>q. prefix q p \<longrightarrow> \<not> is_file (fs q))"
  by (auto simp: ensureDirSync_def list_ex_iff split: if_splits)

lemma ensureDirSync_again:
  assumes "\<And>q. prefix q p \<Longrightarrow> fs q = Some Dir"
  shows "ensureDirSync fs p = Inr fs"
proof -
  have "(\<lambda>q. if prefix q p then Some Dir else fs q) = fs"
    using assms by auto
  moreover have "\<not> list_ex (\<lambda>q. is_file (fs q)) (prefixes p)"
    using assms by (auto simp: list_ex_iff is_file_def)
  ultimately show ?thesis by (simp add: ensureDirSync_def)
qed

text \<open>When a call returns, the root and the directory of the object are on disk.\<close>

lemma downloadFile_leaves_dir:
  assumes ret: "dl_ret (downloadFile env fs url root ic) = Inr s"
  shows "\<exists>pn p ob f.
           url_pathname env url = Some pn \<and> url_segments pn = Inr (p, ob, f) \<and>
           filePath s = path_resolve (path_resolve root ob) f \<and>
           relPath s = path_relative (path_resolve (cwd env) VIRTUAL_CONTENT_ROOT) (filePath s) \<and>
           existsSync (dl_fs (downloadFile env fs url root ic)) root \<and>
           (\<forall>q. prefix q (path_resolve root ob) \<longrightarrow>
                dl_fs (downloadFile env fs url root ic) q = Some Dir) \<and>
           (tagged s = Cached \<longrightarrow>
              existsSync (dl_fs (downloadFile env fs url root ic)) (filePath s)) \<and>
           (tagged s = Download \<and> \<not> ic \<longrightarrow>
              \<not> existsSync (dl_fs (downloadFile env fs url root ic)) (filePath s))"
proof -
  let ?d = "downloadFile env fs url root ic"
  obtain pn p ob f fs1 where
    root: "existsSync fs root" and pn: "url_pathname env url = Some pn"
    and us: "url_segments pn = Inr (p, ob, f)"
    and ens: "ensureDirSync fs (path_resolve root ob) = Inr fs1"
    and fp: "filePath s = path_resolve (path_resolve root ob) f"
    and rp: "relPath s = path_relative (path_resolve (cwd env) VIRTUAL_CONTENT_ROOT) (filePath s)"
    and fs1: "dl_fs ?d = fs1"
    and hit: "tagged s = Cached \<longrightarrow> existsSync fs1 (filePath s)"
    and miss: "tagged s = Download \<longrightarrow> (ic \<or> \<not> existsSync fs1 (filePath s))"
    using downloadFile_Inr [OF ret] by blast
  let ?dir = "path_resolve root ob"
  have eq: "fs1 = (\<lambda>q. if prefix q ?dir then Some Dir else fs q)"
    using ensureDirSync_Inr [OF ens] by simp
  have "existsSync fs1 root" using root by (simp add: eq existsSync_def)
  moreover have "\<forall>q. prefix q ?dir \<longrightarrow> fs1 q = Some Dir" by (simp add: eq)
  ultimately show ?thesis using pn us fp rp fs1 hit miss by blast
qed

text \<open>Once the write that a call started is on disk, a call for a URL of the same
  pathname finds the file: it returns the same paths, tagged as cached, requests nothing
  and starts no write.\<close>

lemma downloadFile_hit_when_written:
  assumes same: "url_pathname env url1 = url_pathname env url2"
    and first: "dl_ret (downloadFile env fs url1 root False) = Inr s1"
    and disk: "fs2 = (case dl_write (downloadFile env fs url1 root False) of
                        None \<Rightarrow> dl_fs (downloadFile env fs url1 root False)
                      | Some (p, bytes) \<Rightarrow>
                          writeFile (dl_fs (downloadFile env fs url1 root False)) p bytes)"
  shows "downloadFile env fs2 url2 root False
           = \<lparr>dl_fs = fs2, dl_write = None, dl_requests = [],
              dl_ret = Inr \<lparr>relPath = relPath s1, filePath = filePath s1, tagged = Cached\<rparr>\<rparr>"
proof -
  let ?d = "downloadFile env fs url1 root False"
  obtain pn p ob f where
    pn: "url_pathname env url1 = Some pn" and us: "url_segments pn = Inr (p, ob, f)"
    and fp: "filePath s1 = path_resolve (path_resolve root ob) f"
    and rp: "relPath s1 = path_relative (path_resolve (cwd env) VIRTUAL_CONTENT_ROOT) (filePath s1)"
    and root: "existsSync (dl_fs ?d) root"
    and dir: "\<And>q. prefix q (path_resolve root ob) \<Longrightarrow> dl_fs ?d q = Some Dir"
    and hit: "tagged s1 = Cached \<longrightarrow> existsSync (dl_fs ?d) (filePath s1)"
    using downloadFile_leaves_dir [OF first] by blast
  have wr: "(tagged s1 = Cached \<longrightarrow> dl_write ?d = None)
      \<and> (tagged s1 = Download \<longrightarrow> (\<exists>bytes. dl_write ?d = Some (filePath s1, bytes)))"
    using downloadFile_Inr [OF first] by blast
  have keep: "existsSync fs2 root \<and> (\<forall>q. prefix q (path_resolve root ob) \<longrightarrow> fs2 q = Some Dir)
      \<and> existsSync fs2 (filePath s1)"
  proof (cases "tagged s1")
    case Cached
    then show ?thesis using wr hit root dir disk by (simp add: existsSync_def)
  next
    case Download
    then obtain bytes where w: "dl_write ?d = Some (filePath s1, bytes)" using wr by blast
    then have fs2: "fs2 = writeFile (dl_fs ?d) (filePath s1) bytes" using disk by simp
    show ?thesis
    proof (cases "dl_fs ?d (filePath s1) = Some Dir")
      case True
      then have "fs2 = dl_fs ?d" using fs2 by (simp add: writeFile_def)
      then show ?thesis using True root dir by (simp add: existsSync_def)
    next
      case False
      then have upd: "fs2 = (dl_fs ?d)(filePath s1 \<mapsto> File bytes)"
        using fs2 by (auto simp: writeFile_def split: option.splits fnode.splits)
      have "\<not> prefix (filePath s1) (path_resolve root ob)" using False dir by blast
      then show ?thesis using upd root dir by (auto simp: existsSync_def)
    qed
  qed
  have ens: "ensureDirSync fs2 (path_resolve root ob) = Inr fs2"
    using keep by (intro ensureDirSync_again) simp
  have pn2: "url_pathname env url2 = Some pn" using same pn by simp
  show ?thesis
    using keep pn2 us ens fp rp by (simp add: downloadFile_def Let_def)
qed

text \<open>While that write is under way, a call for a URL of the same pathname finds no
  file: it requests the URL, and when the request succeeds it is tagged as a download
  of the same file path.\<close>

lemma downloadFile_miss_while_pending:
  assumes same: "url_pathname env url1 = url_pathname env url2"
    and first: "dl_ret (downloadFile env fs url1 root False) = Inr s1"
    and miss: "tagged s1 = Download"
  shows "dl_requests (downloadFile env (dl_fs (downloadFile env fs url1 root False)) url2 root False)
           = [url2]
       \<and> dl_ret (downloadFile env (dl_fs (downloadFile env fs url1 root False)) url2 root False)
           = (case fetch env url2 of
                None \<Rightarrow> Inl (FetchFailed url2)
              | Some bytes \<Rightarrow>
                  Inr \<lparr>relPath = relPath s1, filePath = filePath s1, tagged = Download\<rparr>)"
proof -
  let ?fs = "dl_fs (downloadFile env fs url1 root False)"
  obtain pn p ob f where
    pn: "url_pathname env url1 = Some pn" and us: "url_segments pn = Inr (p, ob, f)"
    and fp: "filePath s1 = path_resolve (path_resolve root ob) f"
    and rp: "relPath s1 = path_relative (path_resolve (cwd env) VIRTUAL_CONTENT_ROOT) (filePath s1)"
    and root: "existsSync ?fs root"
    and dir: "\<And>q. prefix q (path_resolve root ob) \<Longrightarrow> ?fs q = Some Dir"
    and none: "tagged s1 = Download \<and> \<not> False \<longrightarrow> \<not> existsSync ?fs (filePath s1)"
    using downloadFile_leaves_dir [OF first] by blast
  have ens: "ensureDirSync ?fs (path_resolve root ob) = Inr ?fs"
    using dir by (rule ensureDirSync_again)
  have pn2: "url_pathname env url2 = Some pn" using same pn by simp
  have gone: "\<not> existsSync ?fs (filePath s1)" using none miss by simp
  show ?thesis
    using root pn2 us ens gone fp rp
    by (simp add: downloadFile_def Let_def split: option.splits)
qed




text \<open>
  Claim C5 on the source: of two URLs with the same pathname (they differ in the query
  string only), resolved one after the other with the override unset, the second
  should be a cache hit that makes no request. The source starts the write of the first
  resolution and does not await it, so a second resolution that starts while the write
  is under way finds no file and downloads again: below, both calls return the same
  path, both are tagged as downloads, and each makes a request. The cover and the icon
  of a page are resolved one after the other by \<open>#getPageData\<close>; when they are such
  a pair and the write misses one call, two downloads and no hit are counted and both
  URLs are requested. Only when the file is on disk before the second call is that call
  the hit of the claim.
\<close>

theorem downloadFile_write_not_awaited:
  "url_pathname example_platform example_url = Some ''/ed3b/d161/image.png''
   \<and> url_pathname example_platform example_url_rotated = Some ''/ed3b/d161/image.png''
   \<and> dl_ret (downloadFile example_platform example_fs example_url example_root False)
       = Inr \<lparr>relPath = ''../../assets/notion/d161/image.png'',
              filePath = example_root @ [''d161'', ''image.png''], tagged = Download\<rparr>
   \<and> dl_write (downloadFile example_platform example_fs example_url example_root False)
       = Some (example_root @ [''d161'', ''image.png''], ''bytes'')
   \<and> dl_fs (downloadFile example_platform example_fs example_url example_root False)
        (example_root @ [''d161'', ''image.png'']) = None
   \<and> dl_ret (downloadFile example_platform
        (dl_fs (downloadFile example_platform example_fs example_url example_root False))
        example_url_rotated example_root False)
       = Inr \<lparr>relPath = ''../../assets/notion/d161/image.png'',
              filePath = example_root @ [''d161'', ''image.png''], tagged = Download\<rparr>
   \<and> dl_requests (downloadFile example_platform
        (dl_fs (downloadFile example_platform example_fs example_url example_root False))
        example_url_rotated example_root False)
       = [example_url_rotated]
   \<and> downloads (snd (getPageData example_slow example_root example_twice
        (renderer_state example_world))) = 2
   \<and> cachedHits (snd (getPageData example_slow example_root example_twice
        (renderer_state example_world))) = 0
   \<and> r_requests (snd (getPageData example_slow example_root example_twice
        (renderer_state example_world))) = [example_url, example_url_rotated]
   \<and> cachedHits (snd (getPageData example_platform example_root example_twice
        (renderer_state example_world))) = 1
   \<and> r_requests (snd (getPageData example_platform example_root example_twice
        (renderer_state example_world))) = [example_url]"
  by (simp add: example_defs example_slow_def example_twice_def example_url_def
      example_url_rotated_def example_world_def renderer_state_def getPageData_def
      fetchAsset_def land_writes_def after_call_def count_tag_def downloadFile_eval Let_def)

section \<open>Failures of one asset\<close>

lemma fetchBlocks_returns:
  "listings_end items fin \<Longrightarrow> \<exists>bs st1. fetchBlocks env root items fin st = (Inr bs, st1)"
proof (induction env root items fin st rule: fetchBlocks.induct)
  case (1 env assetPath st)
  then show ?case by simp
next
  case (2 env assetPath e st)
  then show ?case by simp
next
  case (3 env assetPath full bid hc pl items fin rest en st)
  show ?case
  proof (cases full)
    case False
    with 3 show ?thesis by simp
  next
    case True
    note full = this
    obtain ch st1 where kids:
      "(if hc then (case fetchBlocks env assetPath items fin st of
                      (Inl e, st1) \<Rightarrow> (Inl e, st1)
                    | (Inr cs, st1) \<Rightarrow> (Inr (Some cs), st1))
        else (Inr None, st)) = (Inr ch, st1)"
    proof (cases hc)
      case False
      then show ?thesis using that by simp
    next
      case True
      then obtain cs st1 where "fetchBlocks env assetPath items fin st = (Inr cs, st1)"
        using "3.IH"(2) "3.prems" full by auto
      then show ?thesis using that True by simp
    qed
    obtain pl1 st2 where pay: "resolve_payload env assetPath pl st1 = (pl1, st2)"
      by (cases "resolve_payload env assetPath pl st1")
    obtain bs st3 where "fetchBlocks env assetPath rest en st2 = (Inr bs, st3)"
      using "3.IH"(3) [OF _ kids [symmetric] refl pay [symmetric]] "3.prems" full by auto
    then show ?thesis using full kids pay by simp
  qed
qed

text \<open>The fetch raises exactly when a listing that it requests does.\<close>

lemma fetchBlocks_raises:
  "\<not> listings_end items fin \<Longrightarrow> \<exists>e st1. fetchBlocks env root items fin st = (Inl e, st1)"
proof (induction env root items fin st rule: fetchBlocks.induct)
  case (1 env assetPath st)
  then show ?case by simp
next
  case (2 env assetPath e st)
  then show ?case by simp
next
  case (3 env assetPath full bid hc pl items fin rest en st)
  show ?case
  proof (cases full)
    case False
    with 3 show ?thesis by simp
  next
    case True
    note full = this
    show ?thesis
    proof (cases "hc \<and> \<not> listings_end items fin")
      case True
      then obtain e st1 where "fetchBlocks env assetPath items fin st = (Inl e, st1)"
        using "3.IH"(2) full by blast
      then show ?thesis using full True by simp
    next
      case False
      then have rest: "\<not> listings_end rest en" using "3.prems" full by auto
      obtain r st1 where k: "(if hc then (case fetchBlocks env assetPath items fin st of
                      (Inl e, st1) \<Rightarrow> (Inl e, st1)
                    | (Inr cs, st1) \<Rightarrow> (Inr (Some cs), st1))
        else (Inr None, st)) = (r, st1)"
        by (cases "(if hc then (case fetchBlocks env assetPath items fin st of
                      (Inl e, st1) \<Rightarrow> (Inl (e::error), st1)
                    | (Inr cs, st1) \<Rightarrow> (Inr (Some cs), st1))
        else (Inr None, st))") auto
      show ?thesis
      proof (cases r)
        case (Inl e)
        then show ?thesis using full k by simp
      next
        case (Inr ch)
        obtain pl1 st2 where pay: "resolve_payload env assetPath pl st1 = (pl1, st2)"
          by (cases "resolve_payload env assetPath pl st1")
        obtain e st3 where "fetchBlocks env assetPath rest en st2 = (Inl e, st3)"
          using "3.IH"(3) [OF _ k [symmetric] Inr pay [symmetric]] rest full by auto
        then show ?thesis using full k Inr pay by simp
      qed
    qed
  qed
qed

lemma fetchBlocks_raises_iff:
  "(\<exists>e st1. fetchBlocks env root items fin st = (Inl e, st1)) \<longleftrightarrow> \<not> listings_end items fin"
proof
  assume "\<exists>e st1. fetchBlocks env root items fin st = (Inl e, st1)"
  then show "\<not> listings_end items fin"
    using fetchBlocks_returns [of items fin env root st] by auto
next
  assume "\<not> listings_end items fin"
  then show "\<exists>e st1. fetchBlocks env root items fin st = (Inl e, st1)"
    by (rule fetchBlocks_raises)
qed

text \<open>
  On claim C3: the fetch is a total function of the tree that the client serves,
  whatever its depth (\<open>fetchBlocks_returns\<close>: it returns whenever the listings end);
  on a chain of any depth it returns the chain. What the depth costs the run-time stack
  of the recursive generators is outside this embedding.
\<close>

lemma fetchBlocks_chain:
  "fetchBlocks env root (chain n) None st = (Inr (chain_fetched n), st)"
  by (induction n) (simp_all add: resolve_payload_def)

lemma fetchBlocks_chain_500:
  "\<exists>bs. fetchBlocks env root (chain 500) None st = (Inr bs, st)"
  using fetchBlocks_chain by blast

text \<open>
  Claim C7: \<open>downloadFile\<close> raises, leaves the file system as it was and starts no
  write, when the root directory does not exist, when the URL does not parse, and when
  its pathname has fewer than three non-empty segments; when it returns, the root
  existed before and the directory of the object exists after. \<open>#fetchAsset\<close> returns the asset object unchanged, with the
  error logged and no asset path recorded, when the creation of the directory or
  \<open>downloadFile\<close> raises; and the fetch of the blocks returns whenever every listing
  of the client ends without an error, whatever happens to the assets.
\<close>

theorem asset_failure_contained:
  "(\<not> existsSync fs root \<longrightarrow>
      downloadFile env fs url root ic
        = \<lparr>dl_fs = fs, dl_write = None, dl_requests = [], dl_ret = Inl (DirectoryMissing root)\<rparr>)
   \<and> (existsSync fs root \<and> url_pathname env url = Some pn
        \<and> length (filter_Boolean (split_on CHR ''/'' pn)) < 3 \<longrightarrow>
      downloadFile env fs url root ic = \<lparr>dl_fs = fs, dl_write = None, dl_requests = [], dl_ret = Inl InvalidURL\<rparr>)
   \<and> (dl_ret (downloadFile env fs url root ic) = Inr s \<and> url_pathname env url = Some pn
        \<and> url_segments pn = Inr (parentId, objId, fileName) \<longrightarrow>
      existsSync fs root \<and> dl_fs (downloadFile env fs url root ic) (path_resolve root objId) = Some Dir)
   \<and> (ensureDirSync (r_fs st) root = Inl e \<longrightarrow>
      fetchAsset env root resolvePath (Some (Hosted url)) st
        = (Some (Hosted url), st\<lparr>r_errors := r_errors st @ [e]\<rparr>))
   \<and> (ensureDirSync (r_fs st) root = Inr fs1 \<and> dl_ret (downloadFile env fs1 url root False) = Inl e \<longrightarrow>
      fst (fetchAsset env root resolvePath (Some (Hosted url)) st) = Some (Hosted url)
      \<and> r_errors (snd (fetchAsset env root resolvePath (Some (Hosted url)) st)) = r_errors st @ [e]
      \<and> r_assetPaths (snd (fetchAsset env root resolvePath (Some (Hosted url)) st)) = r_assetPaths st)
   \<and> (listings_end items fin \<longrightarrow> (\<exists>bs st1. fetchBlocks env root items fin st = (Inr bs, st1)))
   \<and> (existsSync fs root \<and> url_pathname env url = None \<longrightarrow>
      downloadFile env fs url root ic
        = \<lparr>dl_fs = fs, dl_write = None, dl_requests = [], dl_ret = Inl (UrlTypeError url)\<rparr>)"
proof -
  have a: "\<not> existsSync fs root \<longrightarrow>
      downloadFile env fs url root ic
        = \<lparr>dl_fs = fs, dl_write = None, dl_requests = [], dl_ret = Inl (DirectoryMissing root)\<rparr>"
    by (simp add: downloadFile_def)
  have b: "existsSync fs root \<and> url_pathname env url = Some pn
        \<and> length (filter_Boolean (split_on CHR ''/'' pn)) < 3 \<longrightarrow>
      downloadFile env fs url root ic = \<lparr>dl_fs = fs, dl_write = None, dl_requests = [], dl_ret = Inl InvalidURL\<rparr>"
    by (auto simp: downloadFile_def url_segments_def split: list.splits)
  have c: "dl_ret (downloadFile env fs url root ic) = Inr s \<and> url_pathname env url = Some pn
        \<and> url_segments pn = Inr (parentId, objId, fileName) \<longrightarrow>
      existsSync fs root \<and> dl_fs (downloadFile env fs url root ic) (path_resolve root objId) = Some Dir"
  proof (intro impI, elim conjE)
    assume ret: "dl_ret (downloadFile env fs url root ic) = Inr s"
      and pn: "url_pathname env url = Some pn"
      and us: "url_segments pn = Inr (parentId, objId, fileName)"
    have "existsSync fs root" using downloadFile_Inr [OF ret] by blast
    moreover have "dl_fs (downloadFile env fs url root ic) (path_resolve root objId) = Some Dir"
      using downloadFile_leaves_dir [OF ret] pn us by auto
    ultimately show "existsSync fs root
      \<and> dl_fs (downloadFile env fs url root ic) (path_resolve root objId) = Some Dir" by simp
  qed
  have d: "ensureDirSync (r_fs st) root = Inl e \<longrightarrow>
      fetchAsset env root resolvePath (Some (Hosted url)) st
        = (Some (Hosted url), st\<lparr>r_errors := r_errors st @ [e]\<rparr>)"
    by (simp add: fetchAsset_def)
  have e: "ensureDirSync (r_fs st) root = Inr fs1 \<and> dl_ret (downloadFile env fs1 url root False) = Inl e \<longrightarrow>
      fst (fetchAsset env root resolvePath (Some (Hosted url)) st) = Some (Hosted url)
      \<and> r_errors (snd (fetchAsset env root resolvePath (Some (Hosted url)) st)) = r_errors st @ [e]
      \<and> r_assetPaths (snd (fetchAsset env root resolvePath (Some (Hosted url)) st)) = r_assetPaths st"
    by (simp add: fetchAsset_def Let_def split: prod.splits)
  have f: "listings_end items fin \<longrightarrow> (\<exists>bs st1. fetchBlocks env root items fin st = (Inr bs, st1))"
    using fetchBlocks_returns by blast
  have g: "existsSync fs root \<and> url_pathname env url = None \<longrightarrow>
      downloadFile env fs url root ic
        = \<lparr>dl_fs = fs, dl_write = None, dl_requests = [], dl_ret = Inl (UrlTypeError url)\<rparr>"
    by (simp add: downloadFile_def)
  from a b c d e f g show ?thesis by (intro conjI)
qed

theorem asset_failure_contained_witness:
  "downloadFile example_platform (\<lambda>p. None) example_url example_root False
     = \<lparr>dl_fs = (\<lambda>p. None), dl_write = None, dl_requests = [], dl_ret = Inl (DirectoryMissing example_root)\<rparr>
   \<and> downloadFile example_platform example_fs example_url_short example_root False
     = \<lparr>dl_fs = example_fs, dl_write = None, dl_requests = [], dl_ret = Inl InvalidURL\<rparr>
   \<and> dl_fs (downloadFile example_platform example_fs example_url example_root False)
        (example_root @ [''d161'']) = Some Dir
   \<and> fetchAsset example_platform example_root True (Some (Hosted example_url)) example_blocked
     = (Some (Hosted example_url), example_blocked\<lparr>r_errors := [FsError example_root]\<rparr>)
   \<and> fst (fetchAsset example_platform example_root True (Some (Hosted example_url_short))
            (renderer_state example_world)) = Some (Hosted example_url_short)
   \<and> r_errors (snd (fetchAsset example_platform example_root True (Some (Hosted example_url_short))
            (renderer_state example_world))) = [InvalidURL]
   \<and> (\<exists>bs st1. fetchBlocks example_platform example_root
          [RBlock True ''b1'' False (ImageB (Some (Hosted example_url_short))) [] None] None
          (renderer_state example_world) = (Inr bs, st1))
   \<and> downloadFile example_platform example_fs ''not a URL'' example_root False
     = \<lparr>dl_fs = example_fs, dl_write = None, dl_requests = [], dl_ret = Inl (UrlTypeError ''not a URL'')\<rparr>"
proof -
  have h1: "\<not> existsSync (\<lambda>p. None) example_root"
    by (simp add: existsSync_def)
  have w1: "downloadFile example_platform (\<lambda>p. None) example_url example_root False
     = \<lparr>dl_fs = (\<lambda>p. None), dl_write = None, dl_requests = [], dl_ret = Inl (DirectoryMissing example_root)\<rparr>"
    using asset_failure_contained [THEN conjunct1, rule_format, OF h1] .
  have h2: "existsSync example_fs example_root
        \<and> url_pathname example_platform example_url_short = Some ''/only/two.png''
        \<and> length (filter_Boolean (split_on CHR ''/'' ''/only/two.png'')) < 3"
    by (simp add: example_defs example_url_short_def existsSync_def filter_Boolean_def)
  have w2: "downloadFile example_platform example_fs example_url_short example_root False
     = \<lparr>dl_fs = example_fs, dl_write = None, dl_requests = [], dl_ret = Inl InvalidURL\<rparr>"
    using asset_failure_contained [THEN conjunct2, THEN conjunct1, rule_format, OF h2] .
  have h3: "dl_ret (downloadFile example_platform example_fs example_url example_root False)
       = Inr \<lparr>relPath = ''../../assets/notion/d161/image.png'',
              filePath = example_root @ [''d161'', ''image.png''], tagged = Download\<rparr>
        \<and> url_pathname example_platform example_url = Some ''/ed3b/d161/image.png''
        \<and> url_segments ''/ed3b/d161/image.png'' = Inr (''ed3b'', ''d161'', ''image.png'')"
    by (simp add: example_defs example_url_def downloadFile_eval Let_def)
  have "dl_fs (downloadFile example_platform example_fs example_url example_root False)
        (path_resolve example_root ''d161'') = Some Dir"
    using asset_failure_contained [THEN conjunct2, THEN conjunct2, THEN conjunct1, rule_format, OF h3]
    by simp
  then have w3: "dl_fs (downloadFile example_platform example_fs example_url example_root False)
        (example_root @ [''d161'']) = Some Dir"
    by (simp add: path_resolve_def path_step_def)
  have h4: "ensureDirSync (r_fs example_blocked) example_root = Inl (FsError example_root)"
    by (simp add: example_blocked_def example_root_def ensureDirSync_def is_file_def)
  have w4: "fetchAsset example_platform example_root True (Some (Hosted example_url)) example_blocked
     = (Some (Hosted example_url), example_blocked\<lparr>r_errors := [FsError example_root]\<rparr>)"
    using asset_failure_contained
      [THEN conjunct2, THEN conjunct2, THEN conjunct2, THEN conjunct1, rule_format, OF h4]
    by (simp add: example_blocked_def)
  have "ensureDirSync example_fs example_root = Inr example_fs"
    by (rule ensureDirSync_again) (simp add: example_fs_def)
  then have h5: "ensureDirSync (r_fs (renderer_state example_world)) example_root = Inr example_fs
        \<and> dl_ret (downloadFile example_platform example_fs example_url_short example_root False)
            = Inl InvalidURL"
    using w2 by (simp add: renderer_state_def example_world_def)
  have w5: "fst (fetchAsset example_platform example_root True (Some (Hosted example_url_short))
            (renderer_state example_world)) = Some (Hosted example_url_short)
      \<and> r_errors (snd (fetchAsset example_platform example_root True
            (Some (Hosted example_url_short)) (renderer_state example_world))) = [InvalidURL]"
    using asset_failure_contained
      [THEN conjunct2, THEN conjunct2, THEN conjunct2, THEN conjunct2, THEN conjunct1,
       rule_format, OF h5]
    by (simp add: renderer_state_def example_world_def)
  have h6: "listings_end
      [RBlock True ''b1'' False (ImageB (Some (Hosted example_url_short))) [] None] None"
    by simp
  have w6: "\<exists>bs st1. fetchBlocks example_platform example_root
          [RBlock True ''b1'' False (ImageB (Some (Hosted example_url_short))) [] None] None
          (renderer_state example_world) = (Inr bs, st1)"
    using asset_failure_contained
      [THEN conjunct2, THEN conjunct2, THEN conjunct2, THEN conjunct2, THEN conjunct2,
       THEN conjunct1, rule_format, OF h6] .
  have h7: "existsSync example_fs example_root
      \<and> url_pathname example_platform ''not a URL'' = None"
    by (simp add: example_defs existsSync_def)
  have w7: "downloadFile example_platform example_fs ''not a URL'' example_root False
     = \<lparr>dl_fs = example_fs, dl_write = None, dl_requests = [], dl_ret = Inl (UrlTypeError ''not a URL'')\<rparr>"
    using asset_failure_contained
      [THEN conjunct2, THEN conjunct2, THEN conjunct2, THEN conjunct2, THEN conjunct2,
       THEN conjunct2, rule_format, OF h7] .
  show ?thesis using w1 w2 w3 w4 w5 w6 w7 by simp
qed

section \<open>One run of the loader\<close>

subsection \<open>The loop over the pages\<close>

lemma load_page_fields:
  "l_store (load_page ld st pg) = l_store st"
  "l_writes (load_page ld st pg) = l_writes st"
  "l_world (load_page ld st pg) = l_world st"
  "l_rejected (load_page ld st pg) = l_rejected st"
  "cachedPageIds (load_page ld st pg) = removeAll (page_id pg) (cachedPageIds st)"
  "renderers (load_page ld st pg)
     = renderers st @ (if changed ld (l_store st) pg then [pg] else [])"
  by (simp_all add: load_page_def Let_def changed_def)

lemma load_pages_fields:
  "l_store (load_pages ld st items) = l_store st"
  "l_writes (load_pages ld st items) = l_writes st"
  "l_world (load_pages ld st items) = l_world st"
  "l_rejected (load_pages ld st items) = l_rejected st"
  by (induction ld st items rule: load_pages.induct) (simp_all add: load_page_fields)

lemma filter_removeAll: "filter P (removeAll a xs) = filter (\<lambda>i. i \<noteq> a \<and> P i) xs"
  by (induction xs) auto

lemma load_pages_cached:
  "cachedPageIds (load_pages ld st items)
     = filter (\<lambda>i. i \<notin> set (full_ids items)) (cachedPageIds st)"
proof (induction ld st items rule: load_pages.induct)
  case (1 ld st)
  then show ?case by (simp add: full_ids_def)
next
  case (2 ld st i items)
  then show ?case by (simp add: full_ids_def)
next
  case (3 ld st pg items)
  have "filter (\<lambda>i. i \<notin> set (full_ids items)) (removeAll (page_id pg) (cachedPageIds st))
          = filter (\<lambda>i. i \<notin> set (full_ids (FullPage pg # items))) (cachedPageIds st)"
    by (simp add: filter_removeAll full_ids_def)
  with 3 show ?case by (simp add: load_page_fields)
qed

lemma load_pages_renderers:
  "renderers (load_pages ld st items)
     = renderers st @ filter (changed ld (l_store st)) (full_pages items)"
  by (induction ld st items rule: load_pages.induct) (simp_all add: load_page_fields)

lemma full_pages_append: "full_pages (xs @ ys) = full_pages xs @ full_pages ys"
  by (induction xs rule: full_pages.induct) simp_all

lemma load_pages_append: "load_pages ld st (xs @ ys) = load_pages ld (load_pages ld st xs) ys"
  by (induction ld st xs rule: load_pages.induct) simp_all

subsection \<open>The deletions\<close>

lemma delete_pages_fields:
  "l_world (delete_pages ids st) = l_world st"
  "l_rejected (delete_pages ids st) = l_rejected st"
  "renderers (delete_pages ids st) = renderers st"
  "cachedPageIds (delete_pages ids st) = cachedPageIds st"
  "l_writes (delete_pages ids st) = l_writes st @ map Delete_entry ids"
  by (induction ids st rule: delete_pages.induct) simp_all

lemma delete_pages_store:
  "map_of (l_store (delete_pages ids st)) i
     = (if i \<in> set ids then None else map_of (l_store st) i)"
  by (induction ids st rule: delete_pages.induct) (auto simp: delete_conv)

lemma delete_pages_keys:
  "fst ` set (l_store (delete_pages ids st)) = fst ` set (l_store st) - set ids"
proof -
  have "dom (map_of (l_store (delete_pages ids st))) = dom (map_of (l_store st)) - set ids"
    by (auto simp: delete_pages_store dom_def)
  then show ?thesis by (simp add: dom_map_of_conv_image_fst)
qed

subsection \<open>The renders\<close>

lemma settle_fields:
  "renderers (settle ld pg st) = renderers st"
  "cachedPageIds (settle ld pg st) = cachedPageIds st"
  by (auto simp: settle_def Let_def split: prod.splits option.splits)

lemma settle_stores:
  assumes "stores ld pg (l_world st)"
  shows "\<exists>e. e_id e = page_id pg \<and> digest e = last_edited_time pg
           \<and> l_store (settle ld pg st) = AList.update (page_id pg) e (l_store st)
           \<and> l_writes (settle ld pg st) = l_writes st @ [Set_entry e]
           \<and> l_rejected (settle ld pg st) = l_rejected st"
  using assms
  by (auto simp: settle_def stores_def Let_def split: prod.splits option.splits)

lemma settle_no_store:
  assumes "\<not> stores ld pg (l_world st)"
  shows "l_store (settle ld pg st) = l_store st \<and> l_writes (settle ld pg st) = l_writes st"
  using assms
  by (auto simp: settle_def stores_def Let_def split: prod.splits option.splits)

lemma settle_rejected:
  "l_rejected (settle ld pg st)
     = l_rejected st @ (if rejects ld pg (l_world st) then [StageError ''parseData''] else [])"
  by (auto simp: settle_def rejects_def Let_def split: prod.splits option.splits)

lemma settle_other:
  assumes "i \<noteq> page_id pg"
  shows "map_of (l_store (settle ld pg st)) i = map_of (l_store st) i"
proof (cases "stores ld pg (l_world st)")
  case True
  then show ?thesis using settle_stores [OF True] assms by (auto simp: update_conv')
next
  case False
  then show ?thesis using settle_no_store by simp
qed

lemma settle_writes:
  "\<exists>ops. l_writes (settle ld pg st) = l_writes st @ ops
         \<and> (\<forall>op \<in> set ops. \<exists>e. op = Set_entry e \<and> e_id e = page_id pg)"
proof (cases "stores ld pg (l_world st)")
  case True
  then show ?thesis using settle_stores [OF True] by auto
next
  case False
  then show ?thesis using settle_no_store by simp
qed

lemma settle_keys:
  "fst ` set (l_store (settle ld pg st)) \<subseteq> insert (page_id pg) (fst ` set (l_store st))"
proof (cases "stores ld pg (l_world st)")
  case True
  then obtain e where "l_store (settle ld pg st) = AList.update (page_id pg) e (l_store st)"
    using settle_stores by blast
  then have "dom (map_of (l_store (settle ld pg st))) = insert (page_id pg) (dom (map_of (l_store st)))"
    by (simp add: update_conv')
  then show ?thesis by (simp add: dom_map_of_conv_image_fst)
next
  case False
  then show ?thesis using settle_no_store by auto
qed

lemma settle_all_fields:
  "renderers (settle_all ld pgs st) = renderers st"
  "cachedPageIds (settle_all ld pgs st) = cachedPageIds st"
  by (induction ld pgs st rule: settle_all.induct) (simp_all add: settle_fields)

lemma settle_all_other:
  "i \<notin> page_id ` set pgs \<Longrightarrow> map_of (l_store (settle_all ld pgs st)) i = map_of (l_store st) i"
  by (induction ld pgs st rule: settle_all.induct) (simp_all add: settle_other)

lemma settle_all_writes:
  "\<exists>ops. l_writes (settle_all ld pgs st) = l_writes st @ ops
         \<and> (\<forall>op \<in> set ops. \<exists>e. op = Set_entry e \<and> e_id e \<in> page_id ` set pgs)"
proof (induction ld pgs st rule: settle_all.induct)
  case (1 ld st)
  then show ?case by simp
next
  case (2 ld pg pgs st)
  obtain ops1 where o1: "l_writes (settle ld pg st) = l_writes st @ ops1"
    "\<forall>op \<in> set ops1. \<exists>e. op = Set_entry e \<and> e_id e = page_id pg"
    using settle_writes by blast
  obtain ops2 where o2: "l_writes (settle_all ld pgs (settle ld pg st)) = l_writes (settle ld pg st) @ ops2"
    "\<forall>op \<in> set ops2. \<exists>e. op = Set_entry e \<and> e_id e \<in> page_id ` set pgs"
    using 2 by blast
  have "l_writes (settle_all ld (pg # pgs) st) = l_writes st @ (ops1 @ ops2)"
    using o1 o2 by simp
  moreover have "\<forall>op \<in> set (ops1 @ ops2). \<exists>e. op = Set_entry e \<and> e_id e \<in> page_id ` set (pg # pgs)"
    using o1(2) o2(2) by auto
  ultimately show ?case by blast
qed

lemma settle_all_keys:
  "fst ` set (l_store (settle_all ld pgs st)) \<subseteq> page_id ` set pgs \<union> fst ` set (l_store st)"
proof (induction ld pgs st rule: settle_all.induct)
  case (1 ld st)
  then show ?case by simp
next
  case (2 ld pg pgs st)
  then show ?case using settle_keys [of ld pg st] by auto
qed

lemma settle_all_present:
  "map_of (l_store st) i \<noteq> None \<Longrightarrow> map_of (l_store (settle_all ld pgs st)) i \<noteq> None"
proof (induction ld pgs st rule: settle_all.induct)
  case (1 ld st)
  then show ?case by simp
next
  case (2 ld pg pgs st)
  have "map_of (l_store (settle ld pg st)) i \<noteq> None"
  proof (cases "stores ld pg (l_world st)")
    case True
    then show ?thesis using settle_stores [OF True] "2.prems" by (auto simp: update_conv')
  next
    case False
    then show ?thesis using settle_no_store "2.prems" by simp
  qed
  then show ?case using 2 by simp
qed

subsection \<open>The run\<close>

lemma load_unfold:
  "load ld items fin s w =
     settle_all ld (started ld s items)
       (case fin of
          Some e \<Rightarrow> (load_pages ld (first_state s w) items)\<lparr>l_rejected := [e]\<rparr>
        | None \<Rightarrow> delete_pages (unseen s items) (load_pages ld (first_state s w) items))"
  unfolding load_def Let_def first_state_def started_def unseen_def
  by (simp add: load_pages_renderers load_pages_cached split: option.splits)

lemma started_full: "set (started ld s items) \<subseteq> set (full_pages items)"
  by (auto simp: started_def)

lemma started_ids: "pg \<in> set (started ld s items) \<Longrightarrow> page_id pg \<in> set (full_ids items)"
  by (auto simp: started_def full_ids_def)

lemma unseen_set: "set (unseen s items) = fst ` set s - set (full_ids items)"
  by (auto simp: unseen_def)

lemma before_renders_store:
  "map_of (l_store (case fin of
          Some e \<Rightarrow> (load_pages ld (first_state s w) items)\<lparr>l_rejected := [e]\<rparr>
        | None \<Rightarrow> delete_pages (unseen s items) (load_pages ld (first_state s w) items))) i
    = (if fin = None \<and> i \<in> set (unseen s items) then None else map_of s i)"
  by (cases fin) (simp_all add: delete_pages_store load_pages_fields first_state_def)

lemma before_renders_writes:
  "l_writes (case fin of
          Some e \<Rightarrow> (load_pages ld (first_state s w) items)\<lparr>l_rejected := [e]\<rparr>
        | None \<Rightarrow> delete_pages (unseen s items) (load_pages ld (first_state s w) items))
    = (if fin = None then map Delete_entry (unseen s items) else [])"
  by (cases fin) (simp_all add: delete_pages_fields load_pages_fields first_state_def)

lemma load_writes:
  "\<exists>ops. l_writes (load ld items fin s w)
           = (if fin = None then map Delete_entry (unseen s items) else []) @ ops
         \<and> (\<forall>op \<in> set ops. \<exists>e. op = Set_entry e \<and> e_id e \<in> page_id ` set (started ld s items))"
proof -
  let ?st = "case fin of
          Some e \<Rightarrow> (load_pages ld (first_state s w) items)\<lparr>l_rejected := [e]\<rparr>
        | None \<Rightarrow> delete_pages (unseen s items) (load_pages ld (first_state s w) items)"
  obtain ops where "l_writes (settle_all ld (started ld s items) ?st) = l_writes ?st @ ops"
    and "\<forall>op \<in> set ops. \<exists>e. op = Set_entry e \<and> e_id e \<in> page_id ` set (started ld s items)"
    using settle_all_writes [of ld "started ld s items" ?st] by blast
  then show ?thesis
    unfolding load_unfold before_renders_writes by blast
qed

lemma load_cached: "cachedPageIds (load ld items None s w) = unseen s items"
  by (simp add: load_unfold settle_all_fields delete_pages_fields load_pages_cached
      first_state_def unseen_def)

lemma load_store_unstarted:
  "i \<notin> page_id ` set (started ld s items) \<Longrightarrow>
     map_of (l_store (load ld items fin s w)) i
       = (if fin = None \<and> i \<in> set (unseen s items) then None else map_of s i)"
  by (simp add: load_unfold settle_all_other before_renders_store)

lemma key_present: "i \<in> fst ` set s \<Longrightarrow> map_of s i \<noteq> None"
  by (simp add: map_of_eq_None_iff)

lemma started_distinct:
  "distinct (full_ids items) \<Longrightarrow> distinct (map page_id (started ld s items))"
  by (simp add: started_def full_ids_def distinct_map_filter)

lemma full_ids_inj:
  assumes "distinct (full_ids items)" "p \<in> set (full_pages items)" "q \<in> set (full_pages items)"
    "page_id p = page_id q"
  shows "p = q"
  using assms by (auto simp: full_ids_def distinct_map dest: inj_onD)

lemma load_keys:
  "fst ` set (l_store (load ld items None s w)) \<subseteq> set (full_ids items)"
proof -
  have "fst ` set (l_store (load ld items None s w))
          \<subseteq> page_id ` set (started ld s items)
             \<union> fst ` set (l_store (delete_pages (unseen s items) (load_pages ld (first_state s w) items)))"
    using settle_all_keys by (simp add: load_unfold)
  also have "\<dots> \<subseteq> set (full_ids items)"
    using started_ids [of _ ld s items]
    by (auto simp: delete_pages_keys load_pages_fields first_state_def unseen_set)
  finally show ?thesis .
qed

text \<open>After a run whose enumeration ended, every id of the store is the id of an
  enumerated full page: a second run on the same enumeration deletes nothing.\<close>

lemma second_run_unseen: "unseen (l_store (load ld items None s w)) items = []"
proof -
  have "set (unseen (l_store (load ld items None s w)) items) = {}"
    using load_keys [of ld items s w] by (auto simp: unseen_set)
  then show ?thesis by simp
qed

lemma second_run_deletes:
  "(if fin = None then map Delete_entry (unseen (l_store (load ld items fin s w)) items) else [])
     = []"
  by (simp add: second_run_unseen)

text \<open>Every store call of a second run on the same enumeration sets the entry of a
  page that the first run left without an entry of the current digest.\<close>

lemma second_run_writes:
  assumes force: "\<not> truthy (FORCE_RERENDER ld)"
  shows "\<forall>op \<in> set (l_writes (load ld items fin (l_store (load ld items fin s w)) w2)).
           \<exists>x q. op = Set_entry x \<and> e_id x = page_id q \<and> q \<in> set (full_pages items)
             \<and> map_option digest (map_of (l_store (load ld items fin s w)) (page_id q))
                 \<noteq> Some (last_edited_time q)"
proof
  fix op
  let ?s1 = "l_store (load ld items fin s w)"
  assume m: "op \<in> set (l_writes (load ld items fin ?s1 w2))"
  obtain ops where w: "l_writes (load ld items fin ?s1 w2) = ops"
    and ops: "\<forall>op \<in> set ops. \<exists>e. op = Set_entry e \<and> e_id e \<in> page_id ` set (started ld ?s1 items)"
    using load_writes [of ld items fin ?s1 w2] unfolding second_run_deletes by auto
  obtain x where x: "op = Set_entry x" "e_id x \<in> page_id ` set (started ld ?s1 items)"
    using m w ops by auto
  then obtain q where q: "q \<in> set (started ld ?s1 items)" "e_id x = page_id q" by auto
  then have "q \<in> set (full_pages items) \<and> changed ld ?s1 q" by (simp add: started_def)
  then have "q \<in> set (full_pages items)
      \<and> map_option digest (map_of ?s1 (page_id q)) \<noteq> Some (last_edited_time q)"
    using force by (simp add: changed_def)
  then show "\<exists>x q. op = Set_entry x \<and> e_id x = page_id q \<and> q \<in> set (full_pages items)
             \<and> map_option digest (map_of ?s1 (page_id q)) \<noteq> Some (last_edited_time q)"
    using x(1) q(2) by blast
qed

section \<open>Deletions\<close>

text \<open>
  Claim C2: after a run whose enumeration ends, an id that was in the store at the
  start and is the id of no full page of the enumeration is absent from the store, by a
  call of \<^verbatim>\<open>store.delete\<close>; the id of a full page of the enumeration is taken out of
  \<open>cachedPageIds\<close>, is never passed to \<^verbatim>\<open>store.delete\<close>, and if it was in the
  store at the start it is in the store at the end. (An id is observed when a full page
  with that id is enumerated.)
\<close>

theorem load_deletes_unseen:
  "(i \<in> fst ` set store0 \<and> i \<notin> set (full_ids items) \<longrightarrow>
      map_of (l_store (load ld items None store0 w)) i = None
      \<and> Delete_entry i \<in> set (l_writes (load ld items None store0 w)))
   \<and> (i \<in> set (full_ids items) \<longrightarrow>
      i \<notin> set (cachedPageIds (load ld items None store0 w))
      \<and> Delete_entry i \<notin> set (l_writes (load ld items None store0 w))
      \<and> (i \<in> fst ` set store0 \<longrightarrow> map_of (l_store (load ld items None store0 w)) i \<noteq> None))"
proof -
  obtain ops where w: "l_writes (load ld items None store0 w) = map Delete_entry (unseen store0 items) @ ops"
    and ops: "\<forall>op \<in> set ops. \<exists>e. op = Set_entry e \<and> e_id e \<in> page_id ` set (started ld store0 items)"
    using load_writes [of ld items None store0 w] by auto
  have gone: "i \<in> fst ` set store0 \<and> i \<notin> set (full_ids items) \<longrightarrow>
      map_of (l_store (load ld items None store0 w)) i = None
      \<and> Delete_entry i \<in> set (l_writes (load ld items None store0 w))"
  proof (intro impI, elim conjE)
    assume k: "i \<in> fst ` set store0" and n: "i \<notin> set (full_ids items)"
    have u: "i \<in> set (unseen store0 items)" using k n by (simp add: unseen_set)
    have "i \<notin> page_id ` set (started ld store0 items)" using n started_ids by blast
    then show "map_of (l_store (load ld items None store0 w)) i = None
      \<and> Delete_entry i \<in> set (l_writes (load ld items None store0 w))"
      using u w by (simp add: load_store_unstarted)
  qed
  have kept: "i \<in> set (full_ids items) \<longrightarrow>
      i \<notin> set (cachedPageIds (load ld items None store0 w))
      \<and> Delete_entry i \<notin> set (l_writes (load ld items None store0 w))
      \<and> (i \<in> fst ` set store0 \<longrightarrow> map_of (l_store (load ld items None store0 w)) i \<noteq> None)"
  proof
    assume f: "i \<in> set (full_ids items)"
    have u: "i \<notin> set (unseen store0 items)" using f by (simp add: unseen_set)
    have "Delete_entry i \<notin> set ops" using ops by auto
    then have d: "Delete_entry i \<notin> set (l_writes (load ld items None store0 w))"
      using u w by auto
    have "map_of (l_store (load ld items None store0 w)) i \<noteq> None" if "i \<in> fst ` set store0"
    proof -
      have "map_of (l_store (delete_pages (unseen store0 items)
              (load_pages ld (first_state store0 w) items))) i \<noteq> None"
        using u key_present [OF that]
        by (simp add: delete_pages_store load_pages_fields first_state_def)
      then show ?thesis by (simp add: load_unfold settle_all_present)
    qed
    then show "i \<notin> set (cachedPageIds (load ld items None store0 w))
      \<and> Delete_entry i \<notin> set (l_writes (load ld items None store0 w))
      \<and> (i \<in> fst ` set store0 \<longrightarrow> map_of (l_store (load ld items None store0 w)) i \<noteq> None)"
      using u d by (simp add: load_cached)
  qed
  from gone kept show ?thesis by (rule conjI)
qed

theorem load_deletes_unseen_witness:
  "map_of (l_store (load example_loader [FullPage (example_page ''A'' ''t2'')] None
       [(''A'', example_entry ''A'' ''t1''), (''Z'', example_entry ''Z'' ''t1'')] example_world)) ''Z''
     = None
   \<and> Delete_entry ''Z'' \<in> set (l_writes (load example_loader [FullPage (example_page ''A'' ''t2'')] None
       [(''A'', example_entry ''A'' ''t1''), (''Z'', example_entry ''Z'' ''t1'')] example_world))
   \<and> Delete_entry ''A'' \<notin> set (l_writes (load example_loader [FullPage (example_page ''A'' ''t2'')] None
       [(''A'', example_entry ''A'' ''t1''), (''Z'', example_entry ''Z'' ''t1'')] example_world))
   \<and> map_of (l_store (load example_loader [FullPage (example_page ''A'' ''t2'')] None
       [(''A'', example_entry ''A'' ''t1''), (''Z'', example_entry ''Z'' ''t1'')] example_world)) ''A''
     \<noteq> None"
proof -
  let ?items = "[FullPage (example_page ''A'' ''t2'')]"
  let ?store = "[(''A'', example_entry ''A'' ''t1''), (''Z'', example_entry ''Z'' ''t1'')]"
  have z: "''Z'' \<in> fst ` set ?store \<and> ''Z'' \<notin> set (full_ids ?items)"
    by (simp add: full_ids_def example_page_def)
  have a: "''A'' \<in> set (full_ids ?items)" and a0: "''A'' \<in> fst ` set ?store"
    by (simp_all add: full_ids_def example_page_def)
  from load_deletes_unseen [THEN conjunct1, rule_format, OF z, of example_loader example_world]
    load_deletes_unseen [THEN conjunct2, rule_format, OF a, of example_loader ?store example_world]
    a0
  show ?thesis by simp
qed

text \<open>
  Claim C10: a record of the enumeration that is not a full page leaves no trace in a
  run (the loop skips it before it touches \<open>cachedPageIds\<close>), so an id of the store
  for which the enumeration has such a record, and no full page, stays in
  \<open>cachedPageIds\<close>, is passed to \<^verbatim>\<open>store.delete\<close> and is absent from the store
  after a run whose enumeration ends.
\<close>

theorem load_partial_page_deleted:
  "load ld (before @ PartialPage i # after) fin store0 w = load ld (before @ after) fin store0 w
   \<and> (i \<in> fst ` set store0 \<and> i \<notin> set (full_ids (before @ PartialPage i # after)) \<longrightarrow>
        i \<in> set (cachedPageIds (load ld (before @ PartialPage i # after) None store0 w))
        \<and> Delete_entry i \<in> set (l_writes (load ld (before @ PartialPage i # after) None store0 w))
        \<and> map_of (l_store (load ld (before @ PartialPage i # after) None store0 w)) i = None)"
proof -
  have same: "load_pages ld st (before @ PartialPage i # after) = load_pages ld st (before @ after)"
    for st by (simp add: load_pages_append)
  have a: "load ld (before @ PartialPage i # after) fin store0 w = load ld (before @ after) fin store0 w"
    by (simp add: load_def same)
  have b: "i \<in> fst ` set store0 \<and> i \<notin> set (full_ids (before @ PartialPage i # after)) \<longrightarrow>
        i \<in> set (cachedPageIds (load ld (before @ PartialPage i # after) None store0 w))
        \<and> Delete_entry i \<in> set (l_writes (load ld (before @ PartialPage i # after) None store0 w))
        \<and> map_of (l_store (load ld (before @ PartialPage i # after) None store0 w)) i = None"
  proof (intro impI, elim conjE)
    assume k: "i \<in> fst ` set store0" and n: "i \<notin> set (full_ids (before @ PartialPage i # after))"
    let ?items = "before @ PartialPage i # after"
    have u: "i \<in> set (unseen store0 ?items)" using k n by (simp add: unseen_set)
    obtain ops where w: "l_writes (load ld ?items None store0 w) = map Delete_entry (unseen store0 ?items) @ ops"
      using load_writes [of ld ?items None store0 w] by auto
    have "i \<notin> page_id ` set (started ld store0 ?items)" using n started_ids by blast
    then have "map_of (l_store (load ld ?items None store0 w)) i = None"
      using u by (simp add: load_store_unstarted)
    then show "i \<in> set (cachedPageIds (load ld ?items None store0 w))
        \<and> Delete_entry i \<in> set (l_writes (load ld ?items None store0 w))
        \<and> map_of (l_store (load ld ?items None store0 w)) i = None"
      using u w by (simp add: load_cached)
  qed
  from a b show ?thesis by (rule conjI)
qed

theorem load_partial_page_deleted_witness:
  "load example_loader ([FullPage (example_page ''A'' ''t2'')] @ PartialPage ''Z'' # []) None
       [(''A'', example_entry ''A'' ''t1''), (''Z'', example_entry ''Z'' ''t1'')] example_world
     = load example_loader ([FullPage (example_page ''A'' ''t2'')] @ []) None
       [(''A'', example_entry ''A'' ''t1''), (''Z'', example_entry ''Z'' ''t1'')] example_world
   \<and> ''Z'' \<in> set (cachedPageIds (load example_loader
       ([FullPage (example_page ''A'' ''t2'')] @ PartialPage ''Z'' # []) None
       [(''A'', example_entry ''A'' ''t1''), (''Z'', example_entry ''Z'' ''t1'')] example_world))
   \<and> Delete_entry ''Z'' \<in> set (l_writes (load example_loader
       ([FullPage (example_page ''A'' ''t2'')] @ PartialPage ''Z'' # []) None
       [(''A'', example_entry ''A'' ''t1''), (''Z'', example_entry ''Z'' ''t1'')] example_world))
   \<and> map_of (l_store (load example_loader
       ([FullPage (example_page ''A'' ''t2'')] @ PartialPage ''Z'' # []) None
       [(''A'', example_entry ''A'' ''t1''), (''Z'', example_entry ''Z'' ''t1'')] example_world)) ''Z''
     = None"
proof -
  let ?store = "[(''A'', example_entry ''A'' ''t1''), (''Z'', example_entry ''Z'' ''t1'')]"
  have z: "''Z'' \<in> fst ` set ?store
      \<and> ''Z'' \<notin> set (full_ids ([FullPage (example_page ''A'' ''t2'')] @ PartialPage ''Z'' # []))"
    by (simp add: full_ids_def example_page_def)
  from load_partial_page_deleted [THEN conjunct1,
      of example_loader "[FullPage (example_page ''A'' ''t2'')]" "''Z''" "[]" None ?store example_world]
    load_partial_page_deleted [THEN conjunct2, rule_format, OF z, of example_loader example_world]
  show ?thesis by (intro conjI) simp_all
qed

section \<open>The table of contents\<close>

lemma list_items_outline: "list_items (map nav_item items) d = Inr (outline d items)"
proof (induction d items rule: outline.induct)
  case (1 d)
  then show ?case by simp
next
  case (2 d t s subs items)
  have "list_item (nav_item (Item t s subs)) d
          = Inr (\<lparr>depth = d, h_text = Some t, slug = s\<rparr> # outline (d + 1) subs)"
    using "2.IH"(1) by (cases subs) (simp_all add: link_heading_def)
  then show ?case using "2.IH"(2) by simp
qed

lemma extractTocHeadings_nav: "extractTocHeadings (nav_of items) = Inr (outline 0 items)"
  by (simp add: extractTocHeadings_def nav_of_def list_items_outline)

lemma render_fetch_fails:
  assumes "fetchBlocks env root (fst (children_list cl (page_id pg)))
             (snd (children_list cl (page_id pg)))
             (snd (getPageData env root pg (renderer_state w))) = (Inl e, st2)"
  shows "render env cl sg root pg w
           = (\<lparr>data = None, rendered = None\<rparr>,
              world_of (st2\<lparr>r_errors := r_errors st2 @ [e]\<rparr>) (w_headings w))"
  using assms by (auto simp: render_def Let_def split: prod.splits)

lemma render_process_fails:
  assumes "fetchBlocks env root (fst (children_list cl (page_id pg)))
             (snd (children_list cl (page_id pg)))
             (snd (getPageData env root pg (renderer_state w))) = (Inr bs, st2)"
    and "process env sg (w_headings w) bs (r_assetPaths st2) = (Inl e, hs)"
  shows "render env cl sg root pg w
           = (\<lparr>data = None, rendered = None\<rparr>,
              world_of (st2\<lparr>r_errors := r_errors st2 @ [e]\<rparr>) hs)"
  using assms by (auto simp: render_def Let_def split: prod.splits)

lemma process_toc_fails:
  assumes "notionRehype sg bs = Inr tree" "createTOC sg tree = Some toc"
    "extractTocHeadings toc = Inl e"
  shows "process env sg hs0 bs paths = (Inl e, hs0)"
  using assms by (simp add: process_def rehypeToc_def customizeTOC_def)

text \<open>
  Claim C8: on the navigation list of a table of contents, \<open>extractTocHeadings\<close>
  returns the outline of its items: the items in document order, the depth 0 at the top
  level and one more per level of nesting, the text of the link and the \<open>href\<close>
  without its first character as the slug. The hook returns no node, so the contents
  stage leaves the tree as it was and only the headings change. On an element that is
  not a \<open>nav\<close> the extraction raises; the error ends \<open>process\<close>, and \<open>render\<close>
  logs it and returns the empty result.
\<close>

theorem extractTocHeadings_outline:
  "extractTocHeadings (nav_of items) = Inr (outline 0 items)
   \<and> customizeTOC (nav_of items) = Inr (outline 0 items, None)
   \<and> (createTOC sg tree = Some (nav_of items) \<longrightarrow>
        rehypeToc sg tree hs0 = (Inr tree, outline 0 items))
   \<and> (tag \<noteq> ''nav'' \<longrightarrow> extractTocHeadings (Element tag ps cs) = Inl (ExpectedNav (Some tag)))
   \<and> (tag \<noteq> ''nav'' \<and> notionRehype sg bs = Inr tree
        \<and> createTOC sg tree = Some (Element tag ps cs)
        \<and> fetchBlocks env root (fst (children_list cl (page_id pg)))
             (snd (children_list cl (page_id pg)))
             (snd (getPageData env root pg (renderer_state w))) = (Inr bs, st2) \<longrightarrow>
        render env cl sg root pg w
          = (\<lparr>data = None, rendered = None\<rparr>,
             world_of (st2\<lparr>r_errors := r_errors st2 @ [ExpectedNav (Some tag)]\<rparr>) (w_headings w)))"
proof -
  have a: "extractTocHeadings (nav_of items) = Inr (outline 0 items)"
    by (rule extractTocHeadings_nav)
  have b: "customizeTOC (nav_of items) = Inr (outline 0 items, None)"
    by (simp add: customizeTOC_def a)
  have c: "createTOC sg tree = Some (nav_of items) \<longrightarrow>
        rehypeToc sg tree hs0 = (Inr tree, outline 0 items)"
    by (simp add: rehypeToc_def b)
  have d: "tag \<noteq> ''nav'' \<longrightarrow> extractTocHeadings (Element tag ps cs) = Inl (ExpectedNav (Some tag))"
    by (simp add: extractTocHeadings_def)
  have e: "tag \<noteq> ''nav'' \<and> notionRehype sg bs = Inr tree
        \<and> createTOC sg tree = Some (Element tag ps cs)
        \<and> fetchBlocks env root (fst (children_list cl (page_id pg)))
             (snd (children_list cl (page_id pg)))
             (snd (getPageData env root pg (renderer_state w))) = (Inr bs, st2) \<longrightarrow>
        render env cl sg root pg w
          = (\<lparr>data = None, rendered = None\<rparr>,
             world_of (st2\<lparr>r_errors := r_errors st2 @ [ExpectedNav (Some tag)]\<rparr>) (w_headings w))"
  proof (intro impI, elim conjE)
    assume t: "tag \<noteq> ''nav''" and n: "notionRehype sg bs = Inr tree"
      and c: "createTOC sg tree = Some (Element tag ps cs)"
      and f: "fetchBlocks env root (fst (children_list cl (page_id pg)))
             (snd (children_list cl (page_id pg)))
             (snd (getPageData env root pg (renderer_state w))) = (Inr bs, st2)"
    have "extractTocHeadings (Element tag ps cs) = Inl (ExpectedNav (Some tag))"
      using t d by simp
    then have "process env sg (w_headings w) bs (r_assetPaths st2)
                 = (Inl (ExpectedNav (Some tag)), w_headings w)"
      using n c by (rule process_toc_fails [rotated 2])
    then show "render env cl sg root pg w
          = (\<lparr>data = None, rendered = None\<rparr>,
             world_of (st2\<lparr>r_errors := r_errors st2 @ [ExpectedNav (Some tag)]\<rparr>) (w_headings w))"
      using f by (rule render_process_fails [rotated])
  qed
  show ?thesis using a b c d e by (intro conjI)
qed

theorem extractTocHeadings_outline_witness:
  "extractTocHeadings (nav_of example_toc)
     = Inr [\<lparr>depth = 0, h_text = Some ''Intro'', slug = ''intro''\<rparr>,
            \<lparr>depth = 1, h_text = Some ''Sub'', slug = ''sub''\<rparr>,
            \<lparr>depth = 0, h_text = Some ''End'', slug = ''end''\<rparr>]
   \<and> rehypeToc (example_stages\<lparr>createTOC := (\<lambda>t. Some (nav_of example_toc))\<rparr>) [Text ''body''] []
     = (Inr [Text ''body''], outline 0 example_toc)
   \<and> extractTocHeadings (Element ''div'' [] []) = Inl (ExpectedNav (Some ''div''))
   \<and> render example_platform example_client
        (example_stages\<lparr>createTOC := (\<lambda>t. Some (Element ''div'' [] []))\<rparr>)
        example_root (example_page ''A'' ''t1'') example_world
     = (\<lparr>data = None, rendered = None\<rparr>,
        example_world\<lparr>w_errors := [ExpectedNav (Some ''div'')]\<rparr>)"
proof -
  let ?sg = "example_stages\<lparr>createTOC := (\<lambda>t. Some (Element ''div'' [] []))\<rparr>"
  let ?nav = "example_stages\<lparr>createTOC := (\<lambda>t. Some (nav_of example_toc))\<rparr>"
  have o: "outline 0 example_toc
     = [\<lparr>depth = 0, h_text = Some ''Intro'', slug = ''intro''\<rparr>,
        \<lparr>depth = 1, h_text = Some ''Sub'', slug = ''sub''\<rparr>,
        \<lparr>depth = 0, h_text = Some ''End'', slug = ''end''\<rparr>]"
    by (simp add: example_toc_def)
  have w1: "extractTocHeadings (nav_of example_toc) = Inr (outline 0 example_toc)"
    using extractTocHeadings_outline [THEN conjunct1] .
  have h3: "createTOC ?nav [Text ''body''] = Some (nav_of example_toc)"
    by simp
  have w3: "rehypeToc ?nav [Text ''body''] [] = (Inr [Text ''body''], outline 0 example_toc)"
    using extractTocHeadings_outline
      [THEN conjunct2, THEN conjunct2, THEN conjunct1, rule_format, OF h3] .
  have h4: "''div'' \<noteq> ''nav''" by simp
  have w4: "extractTocHeadings (Element ''div'' [] []) = Inl (ExpectedNav (Some ''div''))"
    using extractTocHeadings_outline
      [THEN conjunct2, THEN conjunct2, THEN conjunct2, THEN conjunct1, rule_format, OF h4] .
  have h5: "''div'' \<noteq> ''nav'' \<and> notionRehype ?sg [] = Inr []
        \<and> createTOC ?sg [] = Some (Element ''div'' [] [])
        \<and> fetchBlocks example_platform example_root
             (fst (children_list example_client (page_id (example_page ''A'' ''t1''))))
             (snd (children_list example_client (page_id (example_page ''A'' ''t1''))))
             (snd (getPageData example_platform example_root (example_page ''A'' ''t1'')
                (renderer_state example_world)))
           = (Inr [], renderer_state example_world)"
    by (simp add: example_stages_def example_client_def example_page_def getPageData_def
        fetchAsset_def)
  have "render example_platform example_client ?sg example_root (example_page ''A'' ''t1'')
          example_world
     = (\<lparr>data = None, rendered = None\<rparr>,
        world_of ((renderer_state example_world)
          \<lparr>r_errors := r_errors (renderer_state example_world) @ [ExpectedNav (Some ''div'')]\<rparr>)
          (w_headings example_world))"
    using extractTocHeadings_outline
      [THEN conjunct2, THEN conjunct2, THEN conjunct2, THEN conjunct2, rule_format, OF h5] .
  then have w5: "render example_platform example_client ?sg example_root
        (example_page ''A'' ''t1'') example_world
     = (\<lparr>data = None, rendered = None\<rparr>,
        example_world\<lparr>w_errors := [ExpectedNav (Some ''div'')]\<rparr>)"
    by (simp add: world_of_def renderer_state_def example_world_def)
  show ?thesis using w1 o w3 w4 w5 by simp
qed

section \<open>The rewrite of the asset paths\<close>

lemma strip_triples_dotdot: "strip_triples (''../'' @ s) = strip_triples s"
  by (simp add: line_terminator_def)

lemma replace_dotdot_run:
  assumes "0 < n" "strip_triples rest = rest"
  shows "replace_dotdot (concat (replicate n ''../'') @ rest) = CHR ''/'' # rest"
proof -
  have s: "strip_triples (concat (replicate k ''../'') @ rest) = rest" for k
    using assms(2) by (induction k) (simp_all add: line_terminator_def)
  obtain k where n: "n = Suc k" using assms(1) by (cases n) auto
  have "length (concat (replicate n ''../'') @ rest) \<noteq> length rest" using n by simp
  then have "concat (replicate n ''../'') @ rest \<noteq> rest" by metis
  then show ?thesis using s [of n] by (simp add: replace_dotdot_def)
qed

lemma update_absent: "k \<notin> fst ` set al \<Longrightarrow> AList.update k v al = al @ [(k, v)]"
  by (induction al) auto

lemma update_present_keys:
  "map_of al k = Some v0 \<Longrightarrow> fst ` set (AList.update k v al) = fst ` set al"
proof -
  assume "map_of al k = Some v0"
  then have "k \<in> fst ` set al" by (metis map_of_eq_None_iff option.distinct(1))
  then show ?thesis by (auto simp: dom_update)
qed

text \<open>The image of a cached asset: when the element has no property of the name of
  the hint, its properties become the hint alone, with the number of the earlier
  images of the same source as the index.\<close>

lemma visit_element_hint:
  assumes "map_of ps ''src'' = Some raw" "raw \<noteq> []" "decodeURI env raw = Some src"
    and "src \<in> set paths" "isAstroImageFormat src"
    and "ASTRO_IMAGE_KEY \<notin> fst ` set ps"
  shows "visit_element env paths ''img'' ps occ
           = Inr ([(ASTRO_IMAGE_KEY, stringify_hint env (AList.update ''src'' src ps) (occ src))],
                  occ(src := occ src + 1))"
proof -
  define ps1 where "ps1 = AList.update ''src'' src ps"
  have keys: "fst ` set ps1 = fst ` set ps"
    unfolding ps1_def using assms(1) by (rule update_present_keys)
  then have absent: "ASTRO_IMAGE_KEY \<notin> fst ` set ps1" using assms(6) by simp
  have upd: "AList.update ASTRO_IMAGE_KEY v ps1 = ps1 @ [(ASTRO_IMAGE_KEY, v)]" for v
    using absent by (rule update_absent)
  have "filter (\<lambda>kv. fst kv \<notin> fst ` set ps1) ps1 = []"
    by (induction ps1) auto
  then have fil: "filter (\<lambda>kv. fst kv \<notin> set (map fst ps1)) (ps1 @ [(ASTRO_IMAGE_KEY, v)])
                   = [(ASTRO_IMAGE_KEY, v)]" for v
    using absent by simp
  have "visit_element env paths ''img'' ps occ
          = Inr (filter (\<lambda>kv. fst kv \<notin> set (map fst ps1))
                   (AList.update ASTRO_IMAGE_KEY (stringify_hint env ps1 (occ src)) ps1),
                 occ(src := occ src + 1))"
    using assms(1-5) by (simp add: visit_element_def Let_def ps1_def)
  then show ?thesis unfolding upd fil by (simp add: ps1_def)
qed

text \<open>Repeated images of one cached asset are numbered in document order.\<close>

lemma visit_all_repeated_image:
  assumes "map_of ps ''src'' = Some raw" "raw \<noteq> []" "decodeURI env raw = Some src"
    and "src \<in> set paths" "isAstroImageFormat src"
    and "ASTRO_IMAGE_KEY \<notin> fst ` set ps"
  shows "visit_all env paths (replicate n (Element ''img'' ps [])) occ
           = Inr (map (\<lambda>k. Element ''img''
                          [(ASTRO_IMAGE_KEY,
                            stringify_hint env (AList.update ''src'' src ps) (occ src + k))] [])
                    [0..<n],
                  occ(src := occ src + n))"
proof (induction n arbitrary: occ)
  case 0
  then show ?case by simp
next
  case (Suc n)
  have one: "visit_element env paths ''img'' ps occ
           = Inr ([(ASTRO_IMAGE_KEY, stringify_hint env (AList.update ''src'' src ps) (occ src))],
                  occ(src := occ src + 1))"
    using assms by (rule visit_element_hint)
  define occ1 where "occ1 = occ(src := occ src + 1)"
  have at: "occ1 src = occ src + 1"
    and after: "occ1(src := occ src + 1 + n) = occ(src := occ src + Suc n)"
    by (simp_all add: occ1_def)
  have rest: "visit_all env paths (replicate n (Element ''img'' ps [])) occ1
           = Inr (map (\<lambda>k. Element ''img''
                          [(ASTRO_IMAGE_KEY,
                            stringify_hint env (AList.update ''src'' src ps) (occ src + 1 + k))] [])
                    [0..<n],
                  occ(src := occ src + Suc n))"
    using Suc [of occ1] unfolding at after .
  have upt: "[0..<Suc n] = 0 # map Suc [0..<n]"
    by (simp add: upt_conv_Cons map_Suc_upt del: upt_Suc)
  have split: "map F [0..<Suc n] = F 0 # map (\<lambda>k. F (Suc k)) [0..<n]" for F :: "nat \<Rightarrow> hnode"
    unfolding upt by (simp add: comp_def)
  have step: "visit_all env paths (replicate (Suc n) (Element ''img'' ps [])) occ
          = Inr (Element ''img''
                   [(ASTRO_IMAGE_KEY, stringify_hint env (AList.update ''src'' src ps) (occ src))] []
                 # map (\<lambda>k. Element ''img''
                          [(ASTRO_IMAGE_KEY,
                            stringify_hint env (AList.update ''src'' src ps) (occ src + 1 + k))] [])
                    [0..<n],
                 occ(src := occ src + Suc n))"
    using one rest unfolding occ1_def by simp
  show ?case unfolding split step by (auto simp: fun_eq_iff)
qed

text \<open>Every other source that begins with \<open>src/\<close> loses that prefix for a slash.\<close>

lemma visit_element_src:
  assumes "map_of ps ''src'' = Some raw" "raw \<noteq> []" "decodeURI env raw = Some src"
    and "tag \<noteq> ''img'' \<or> src \<notin> set paths \<or> \<not> isAstroImageFormat src"
    and "prefix ''src/'' src"
  shows "visit_element env paths tag ps occ
           = Inr (rewrite_href (AList.update ''src'' (CHR ''/'' # drop 4 src) ps), occ)"
proof -
  obtain t where "src = ''src/'' @ t" using assms(5) by (auto simp: prefix_def)
  then have n: "\<not> prefix ''../'' src" by simp
  have c: "(tag = ''img'' \<and> src \<in> set paths \<and> isAstroImageFormat src) = False"
    using assms(4) by blast
  have "visit_element env paths tag ps occ
      = (let ps1 = AList.update ''src'' src ps;
             ps2 = (if prefix ''../'' src
                    then AList.update ''src'' (replace_dotdot src) ps1 else ps1);
             ps3 = (if prefix ''src/'' src
                    then AList.update ''src'' (replace_src src) ps2 else ps2)
         in Inr (rewrite_href ps3, occ))"
    using assms(1-3) unfolding visit_element_def by (simp add: c)
  then show ?thesis using assms(5) n by (simp add: Let_def replace_src_def)
qed

text \<open>
  Claim C9 on the source: a source that begins with \<open>../\<close> should have the run of
  \<open>../\<close> at its front replaced by a slash. The regular expression of the source
  leaves its dots unescaped, so a segment of two characters after the run is removed
  with it. With the asset directory \<open>src/im\<close>, an image block of the file
  \<open>pic.svg\<close> has the path \<open>../../im/d161/pic.svg\<close>, and the rewrite gives
  \<open>/d161/pic.svg\<close>; for the same file a video block has the path
  \<open>src/im/d161/pic.svg\<close>, and the rewrite gives \<open>/im/d161/pic.svg\<close>.
\<close>

theorem rehypeAssets_dotdot_slip:
  "dl_ret (downloadFile example_platform (\<lambda>p. if prefix p [''site'', ''src'', ''im''] then Some Dir else None)
       ''https://files.example/ed3b/d161/pic.svg?X-Amz-Signature=1'' [''site'', ''src'', ''im''] False)
     = Inr \<lparr>relPath = ''../../im/d161/pic.svg'',
            filePath = [''site'', ''src'', ''im'', ''d161'', ''pic.svg''], tagged = Download\<rparr>
   \<and> rehypeAssets example_platform [''../../im/d161/pic.svg'']
       [Element ''img'' [(''src'', ''../../im/d161/pic.svg'')] []]
     = Inr [Element ''img'' [(''src'', ''/d161/pic.svg'')] []]
   \<and> resolveAssetPath example_platform ''../../im/d161/pic.svg'' = ''src/im/d161/pic.svg''
   \<and> rehypeAssets example_platform [''../../im/d161/pic.svg'']
       [Element ''video'' [(''src'', ''src/im/d161/pic.svg'')] []]
     = Inr [Element ''video'' [(''src'', ''/im/d161/pic.svg'')] []]"
  by (simp add: example_defs downloadFile_eval Let_def rehypeAssets_def visit_element_def
      isAstroImageFormat_def ASTRO_IMAGE_FORMATS_def toLowerCase_def lower_char_def
      replace_dotdot_def replace_src_def rewrite_href_def line_terminator_def
      resolveAssetPath_def)

section \<open>The entries after a run\<close>

lemma load_renderers: "renderers (load ld items fin s w) = started ld s items"
  by (cases fin)
     (simp_all add: load_unfold settle_all_fields delete_pages_fields load_pages_renderers
        first_state_def started_def)

text \<open>When the first run left every enumerated page with an entry of the current
  digest, the second run starts no render and makes no store call.\<close>

lemma second_run_idle:
  assumes cur: "\<And>q. q \<in> set (full_pages items) \<Longrightarrow>
      map_option digest (map_of (l_store (load ld items fin s w)) (page_id q))
        = Some (last_edited_time q)"
    and force: "\<not> truthy (FORCE_RERENDER ld)"
  shows "renderers (load ld items fin (l_store (load ld items fin s w)) w2) = []
       \<and> l_writes (load ld items fin (l_store (load ld items fin s w)) w2) = []"
proof -
  let ?s1 = "l_store (load ld items fin s w)"
  have "\<not> changed ld ?s1 q" if "q \<in> set (full_pages items)" for q
    using cur [OF that] force by (simp add: changed_def)
  then have none: "started ld ?s1 items = []" by (simp add: started_def filter_empty_conv)
  obtain ops where w: "l_writes (load ld items fin ?s1 w2) = ops"
    and ops: "\<forall>op \<in> set ops. \<exists>e. op = Set_entry e \<and> e_id e \<in> page_id ` set (started ld ?s1 items)"
    using load_writes [of ld items fin ?s1 w2] unfolding second_run_deletes by auto
  have "ops = []" using ops none by (cases ops) auto
  then show ?thesis using w none by (simp add: load_renderers)
qed

lemma unstarted_id:
  assumes d: "distinct (full_ids items)" and m: "pg \<in> set (full_pages items)"
    and c: "\<not> changed ld s pg"
  shows "page_id pg \<notin> page_id ` set (started ld s items)"
proof
  assume "page_id pg \<in> page_id ` set (started ld s items)"
  then obtain q where q: "q \<in> set (started ld s items)" "page_id q = page_id pg" by auto
  then have "q \<in> set (full_pages items)" using started_full by blast
  then have "q = pg" using full_ids_inj [OF d _ m] q(2) by simp
  then show False using q(1) c by (simp add: started_def)
qed

lemma seen_id: "pg \<in> set (full_pages items) \<Longrightarrow> page_id pg \<notin> set (unseen s items)"
  by (auto simp: unseen_set full_ids_def)

lemma settle_all_untouched:
  assumes "\<And>q v. q \<in> set pgs \<Longrightarrow> page_id q = i \<Longrightarrow> \<not> stores ld q v"
  shows "map_of (l_store (settle_all ld pgs st)) i = map_of (l_store st) i
       \<and> (\<forall>x. Set_entry x \<in> set (l_writes (settle_all ld pgs st)) \<longrightarrow>
              Set_entry x \<in> set (l_writes st) \<or> e_id x \<noteq> i)"
  using assms
proof (induction pgs arbitrary: st)
  case Nil
  then show ?case by simp
next
  case (Cons q pgs)
  have one: "map_of (l_store (settle ld q st)) i = map_of (l_store st) i
       \<and> (\<forall>x. Set_entry x \<in> set (l_writes (settle ld q st)) \<longrightarrow>
              Set_entry x \<in> set (l_writes st) \<or> e_id x \<noteq> i)"
  proof (cases "stores ld q (l_world st)")
    case True
    then have ne: "page_id q \<noteq> i" using Cons.prems [of q "l_world st"] by auto
    obtain x where x: "e_id x = page_id q"
      "l_store (settle ld q st) = AList.update (page_id q) x (l_store st)"
      "l_writes (settle ld q st) = l_writes st @ [Set_entry x]"
      using settle_stores [OF True] by blast
    show ?thesis using ne x by (auto simp: update_conv')
  next
    case False
    then show ?thesis using settle_no_store by simp
  qed
  have "map_of (l_store (settle_all ld pgs (settle ld q st))) i = map_of (l_store (settle ld q st)) i
       \<and> (\<forall>x. Set_entry x \<in> set (l_writes (settle_all ld pgs (settle ld q st))) \<longrightarrow>
              Set_entry x \<in> set (l_writes (settle ld q st)) \<or> e_id x \<noteq> i)"
    using Cons.IH [of "settle ld q st"] Cons.prems by simp
  then show ?case using one by auto
qed

lemma settle_all_entry:
  assumes d: "distinct (map page_id pgs)" and m: "q \<in> set pgs" and s: "\<And>v. stores ld q v"
  shows "\<exists>x. map_of (l_store (settle_all ld pgs st)) (page_id q) = Some x
            \<and> e_id x = page_id q \<and> digest x = last_edited_time q
            \<and> Set_entry x \<in> set (l_writes (settle_all ld pgs st))"
  using d m
proof (induction pgs arbitrary: st)
  case Nil
  then show ?case by simp
next
  case (Cons p pgs)
  show ?case
  proof (cases "q = p")
    case True
    obtain x where x: "e_id x = page_id q" "digest x = last_edited_time q"
      "l_store (settle ld q st) = AList.update (page_id q) x (l_store st)"
      "l_writes (settle ld q st) = l_writes st @ [Set_entry x]"
      using settle_stores [OF s [of "l_world st"]] by blast
    have nin: "page_id q \<notin> page_id ` set pgs" using Cons.prems(1) True by auto
    have a: "map_of (l_store (settle_all ld pgs (settle ld q st))) (page_id q) = Some x"
      using nin x(3) by (simp add: settle_all_other update_conv')
    obtain ops where "l_writes (settle_all ld pgs (settle ld q st)) = l_writes (settle ld q st) @ ops"
      using settle_all_writes by blast
    then have b: "Set_entry x \<in> set (l_writes (settle_all ld pgs (settle ld q st)))"
      using x(4) by simp
    show ?thesis using a b x(1,2) True by auto
  next
    case False
    then have "q \<in> set pgs" using Cons.prems(2) by simp
    moreover have "distinct (map page_id pgs)" using Cons.prems(1) by simp
    ultimately show ?thesis using Cons.IH [of "settle ld p st"] by simp
  qed
qed

lemma settle_all_rejected:
  assumes "\<And>q v. q \<in> set pgs \<Longrightarrow> \<not> rejects ld q v"
  shows "l_rejected (settle_all ld pgs st) = l_rejected st"
  using assms
proof (induction pgs arbitrary: st)
  case Nil
  then show ?case by simp
next
  case (Cons q pgs)
  have "l_rejected (settle ld q st) = l_rejected st"
    using Cons.prems [of q "l_world st"] by (simp add: settle_rejected)
  then show ?case using Cons.IH [of "settle ld q st"] Cons.prems by simp
qed

lemma before_renders_no_set:
  "Set_entry x \<notin> set (l_writes (case fin of
          Some e \<Rightarrow> (load_pages ld (first_state s w) items)\<lparr>l_rejected := [e]\<rparr>
        | None \<Rightarrow> delete_pages (unseen s items) (load_pages ld (first_state s w) items)))"
  by (auto simp: before_renders_writes)

text \<open>A full page whose renders never end in a write keeps its entry, or has none.\<close>

lemma load_untouched:
  assumes d: "distinct (full_ids items)" and m: "pg \<in> set (full_pages items)"
    and f: "\<And>v. \<not> stores ld pg v"
  shows "map_of (l_store (load ld items fin s w)) (page_id pg) = map_of s (page_id pg)
       \<and> (\<forall>x. Set_entry x \<in> set (l_writes (load ld items fin s w)) \<longrightarrow> e_id x \<noteq> page_id pg)"
proof -
  have only: "\<not> stores ld q v" if "q \<in> set (started ld s items)" "page_id q = page_id pg" for q v
  proof -
    have "q \<in> set (full_pages items)" using that(1) started_full by blast
    then have "q = pg" using full_ids_inj [OF d _ m] that(2) by simp
    then show ?thesis using f by simp
  qed
  let ?pre = "case fin of
          Some e \<Rightarrow> (load_pages ld (first_state s w) items)\<lparr>l_rejected := [e]\<rparr>
        | None \<Rightarrow> delete_pages (unseen s items) (load_pages ld (first_state s w) items)"
  have u: "map_of (l_store (settle_all ld (started ld s items) ?pre)) (page_id pg)
             = map_of (l_store ?pre) (page_id pg)
       \<and> (\<forall>x. Set_entry x \<in> set (l_writes (settle_all ld (started ld s items) ?pre)) \<longrightarrow>
              Set_entry x \<in> set (l_writes ?pre) \<or> e_id x \<noteq> page_id pg)"
    using only by (rule settle_all_untouched)
  have "map_of (l_store ?pre) (page_id pg) = map_of s (page_id pg)"
    using seen_id [OF m, of s] by (simp add: before_renders_store)
  moreover have "\<And>x. Set_entry x \<notin> set (l_writes ?pre)"
    by (rule before_renders_no_set)
  ultimately show ?thesis unfolding load_unfold using u by metis
qed

text \<open>A full page whose stored digest is current is not rendered and keeps its
  entry.\<close>

lemma load_unchanged:
  assumes d: "distinct (full_ids items)" and m: "pg \<in> set (full_pages items)"
    and c: "\<not> changed ld s pg"
  shows "map_of (l_store (load ld items fin s w)) (page_id pg) = map_of s (page_id pg)
       \<and> (\<forall>x. Set_entry x \<in> set (l_writes (load ld items fin s w)) \<longrightarrow> e_id x \<noteq> page_id pg)"
proof -
  have n: "page_id pg \<notin> page_id ` set (started ld s items)"
    using unstarted_id [OF d m c] .
  have only: "\<not> stores ld q v" if "q \<in> set (started ld s items)" "page_id q = page_id pg" for q v
    using that n by (metis imageI)
  let ?pre = "case fin of
          Some e \<Rightarrow> (load_pages ld (first_state s w) items)\<lparr>l_rejected := [e]\<rparr>
        | None \<Rightarrow> delete_pages (unseen s items) (load_pages ld (first_state s w) items)"
  have u: "map_of (l_store (settle_all ld (started ld s items) ?pre)) (page_id pg)
             = map_of (l_store ?pre) (page_id pg)
       \<and> (\<forall>x. Set_entry x \<in> set (l_writes (settle_all ld (started ld s items) ?pre)) \<longrightarrow>
              Set_entry x \<in> set (l_writes ?pre) \<or> e_id x \<noteq> page_id pg)"
    using only by (rule settle_all_untouched)
  have "map_of (l_store ?pre) (page_id pg) = map_of s (page_id pg)"
    using seen_id [OF m, of s] by (simp add: before_renders_store)
  moreover have "\<And>x. Set_entry x \<notin> set (l_writes ?pre)"
    by (rule before_renders_no_set)
  ultimately show ?thesis unfolding load_unfold using u by metis
qed

text \<open>A full page that is rendered, and whose renders end in a write, has its entry
  with the new digest.\<close>

lemma load_updated:
  assumes d: "distinct (full_ids items)" and m: "q \<in> set (full_pages items)"
    and c: "changed ld s q" and s: "\<And>v. stores ld q v"
  shows "\<exists>x. map_of (l_store (load ld items fin s w)) (page_id q) = Some x
            \<and> e_id x = page_id q \<and> digest x = last_edited_time q
            \<and> Set_entry x \<in> set (l_writes (load ld items fin s w))"
proof -
  have "q \<in> set (started ld s items)" using m c by (simp add: started_def)
  then show ?thesis
    unfolding load_unfold
    using settle_all_entry [OF started_distinct [OF d] _ s] by blast
qed

lemma load_not_rejected:
  assumes "\<And>q v. q \<in> set (full_pages items) \<Longrightarrow> \<not> rejects ld q v"
  shows "l_rejected (load ld items None s w) = []"
proof -
  have "\<not> rejects ld q v" if "q \<in> set (started ld s items)" for q v
    using that assms started_full by blast
  then show ?thesis
    unfolding load_unfold
    by (simp add: settle_all_rejected delete_pages_fields load_pages_fields first_state_def)
qed

lemma empty_never_stores:
  "fst (render_page ld pg v) = \<lparr>data = None, rendered = None\<rparr> \<Longrightarrow> \<not> stores ld pg v"
  by (simp add: stores_def)

lemma settle_empty:
  "fst (render_page ld pg (l_world st)) = \<lparr>data = None, rendered = None\<rparr> \<Longrightarrow>
     settle ld pg st = st\<lparr>l_world := snd (render_page ld pg (l_world st))\<rparr>"
  by (cases "render_page ld pg (l_world st)") (simp add: settle_def)

text \<open>The renderer of the examples: the render of the page \<open>''bad''\<close> fails in every
  world, every other render ends in a write.\<close>

lemmas example_render_eval = example_loader_def notionLoader_def render_def example_client_def
  example_stages_def process_def rehypeToc_def customizeTOC_def extractTocHeadings_def
  rehypeAssets_def Let_def

lemma example_stores: "stores example_loader q v = (page_id q \<noteq> ''bad'')"
  by (simp add: stores_def example_render_eval split: prod.splits)

lemma example_rejects: "\<not> rejects example_loader q v"
  by (simp add: rejects_def example_loader_def notionLoader_def split: option.splits)

lemma example_bad:
  "render_page example_loader (example_page ''bad'' t) v
     = (\<lparr>data = None, rendered = None\<rparr>, v\<lparr>w_errors := w_errors v @ [ApiError ''bad'']\<rparr>)"
  by (simp add: example_render_eval example_page_def getPageData_def fetchAsset_def
      world_of_def renderer_state_def)

section \<open>Unchanged pages\<close>

lemmas example_gallery_eval = example_defs example_flaky_def example_url_expired_def
  example_url_def example_gallery_def example_gallery_stages_def example_gallery_loader_def
  notionLoader_def example_world_def example_page_def render_def renderer_state_def
  world_of_def getPageData_def fetchAsset_def resolve_payload_def land_writes_def
  after_call_def count_tag_def downloadFile_eval Let_def process_def rehypeToc_def
  rehypeAssets_def visit_element_def isAstroImageFormat_def ASTRO_IMAGE_FORMATS_def
  toLowerCase_def lower_char_def rewrite_href_def ASTRO_IMAGE_KEY_def load_def load_page_def
  settle_def truthy_def

text \<open>
  Claim C1 as the specification states it: a second run with no remote change makes no
  store write. It fails when a render of the first run failed and the same render
  succeeds in the second run. For the page of the two images, with an empty store: in
  the first run the request of the first image fails, so its block keeps the remote
  URL, the second image is downloaded, \<^verbatim>\<open>decodeURI\<close> throws on the remote URL and the
  render is empty: nothing is stored. In the second run, on the same enumeration and
  from the world that the first run left, the first image is a cache hit on the file that
  the second one wrote, the render succeeds, and the entry is set.
\<close>

theorem load_second_pass_counterexample:
  "w_errors (l_world (load example_gallery_loader [FullPage (example_page ''A'' ''t1'')] None []
       example_world))
     = [FetchFailed example_url_expired, URIError example_url_expired]
   \<and> l_writes (load example_gallery_loader [FullPage (example_page ''A'' ''t1'')] None []
       example_world) = []
   \<and> l_store (load example_gallery_loader [FullPage (example_page ''A'' ''t1'')] None []
       example_world) = []
   \<and> l_writes (load example_gallery_loader [FullPage (example_page ''A'' ''t1'')] None
       (l_store (load example_gallery_loader [FullPage (example_page ''A'' ''t1'')] None []
          example_world))
       (l_world (load example_gallery_loader [FullPage (example_page ''A'' ''t1'')] None []
          example_world))) \<noteq> []
   \<and> map_option digest (map_of (l_store (load example_gallery_loader
       [FullPage (example_page ''A'' ''t1'')] None
       (l_store (load example_gallery_loader [FullPage (example_page ''A'' ''t1'')] None []
          example_world))
       (l_world (load example_gallery_loader [FullPage (example_page ''A'' ''t1'')] None []
          example_world)))) ''A'') = Some ''t1''"
  by (simp add: example_gallery_eval)

text \<open>
  Claim C1, amended. In the loop, a page whose stored digest equals its time of the
  last edit, with the override unset, changes nothing but the page count,
  \<open>cachedPageIds\<close> and the log (a line of a skip): no render is started and the store
  is not written; a page with no entry has its render started, in the loop and so in
  the run. Over a run on an enumeration with distinct ids, an unchanged page is not
  among the started renders, its entry is as before, and no call of \<^verbatim>\<open>store.set\<close> has
  its id. A second run on the same enumeration, from the store that the first run left
  and with the override unset, deletes nothing, and every entry that it sets is the
  entry of a page that the first run left without an entry of the current digest (its
  render failed or was rejected, and it is rendered again); when the first run left
  every page of the enumeration with an entry of the current digest, the second run
  starts no render and makes no store call at all.
\<close>

theorem load_skips_unchanged:
  "(map_option digest (map_of (l_store st) (page_id pg)) = Some (last_edited_time pg)
      \<and> \<not> truthy (FORCE_RERENDER ld) \<longrightarrow>
        load_page ld st pg
          = st\<lparr>pageCount := pageCount st + 1,
               cachedPageIds := removeAll (page_id pg) (cachedPageIds st),
               l_log := l_log st @ [Skipped (page_id pg)]\<rparr>)
   \<and> (map_of (l_store st) (page_id pg) = None \<longrightarrow>
        renderers (load_page ld st pg) = renderers st @ [pg])
   \<and> (map_of store0 (page_id pg) = None \<and> pg \<in> set (full_pages items) \<longrightarrow>
        pg \<in> set (renderers (load ld items fin store0 w)))
   \<and> (map_option digest (map_of store0 (page_id pg)) = Some (last_edited_time pg)
      \<and> \<not> truthy (FORCE_RERENDER ld) \<and> pg \<in> set (full_pages items)
      \<and> distinct (full_ids items) \<longrightarrow>
        pg \<notin> set (renderers (load ld items fin store0 w))
        \<and> map_of (l_store (load ld items fin store0 w)) (page_id pg) = map_of store0 (page_id pg)
        \<and> (\<forall>x. Set_entry x \<in> set (l_writes (load ld items fin store0 w)) \<longrightarrow>
               e_id x \<noteq> page_id pg))
   \<and> (\<not> truthy (FORCE_RERENDER ld) \<longrightarrow>
        (\<forall>op \<in> set (l_writes (load ld items fin (l_store (load ld items fin store0 w))
                                 (l_world (load ld items fin store0 w)))).
           \<exists>x q. op = Set_entry x \<and> e_id x = page_id q \<and> q \<in> set (full_pages items)
             \<and> map_option digest (map_of (l_store (load ld items fin store0 w)) (page_id q))
                 \<noteq> Some (last_edited_time q)))
   \<and> ((\<forall>q \<in> set (full_pages items).
          map_option digest (map_of (l_store (load ld items fin store0 w)) (page_id q))
            = Some (last_edited_time q))
      \<and> \<not> truthy (FORCE_RERENDER ld) \<longrightarrow>
        renderers (load ld items fin (l_store (load ld items fin store0 w))
                     (l_world (load ld items fin store0 w))) = []
        \<and> l_writes (load ld items fin (l_store (load ld items fin store0 w))
                      (l_world (load ld items fin store0 w))) = [])"
proof -
  have a: "map_option digest (map_of (l_store st) (page_id pg)) = Some (last_edited_time pg)
      \<and> \<not> truthy (FORCE_RERENDER ld) \<longrightarrow>
        load_page ld st pg
          = st\<lparr>pageCount := pageCount st + 1,
               cachedPageIds := removeAll (page_id pg) (cachedPageIds st),
               l_log := l_log st @ [Skipped (page_id pg)]\<rparr>"
    by (simp add: load_page_def Let_def)
  have b: "map_of (l_store st) (page_id pg) = None \<longrightarrow>
        renderers (load_page ld st pg) = renderers st @ [pg]"
    by (simp add: load_page_def Let_def)
  have b': "map_of store0 (page_id pg) = None \<and> pg \<in> set (full_pages items) \<longrightarrow>
        pg \<in> set (renderers (load ld items fin store0 w))"
    by (simp add: load_renderers started_def changed_def)
  have c: "map_option digest (map_of store0 (page_id pg)) = Some (last_edited_time pg)
      \<and> \<not> truthy (FORCE_RERENDER ld) \<and> pg \<in> set (full_pages items)
      \<and> distinct (full_ids items) \<longrightarrow>
        pg \<notin> set (renderers (load ld items fin store0 w))
        \<and> map_of (l_store (load ld items fin store0 w)) (page_id pg) = map_of store0 (page_id pg)
        \<and> (\<forall>x. Set_entry x \<in> set (l_writes (load ld items fin store0 w)) \<longrightarrow>
               e_id x \<noteq> page_id pg)"
  proof (intro impI, elim conjE)
    assume dg: "map_option digest (map_of store0 (page_id pg)) = Some (last_edited_time pg)"
      and force: "\<not> truthy (FORCE_RERENDER ld)" and m: "pg \<in> set (full_pages items)"
      and d: "distinct (full_ids items)"
    have n: "\<not> changed ld store0 pg" using dg force by (simp add: changed_def)
    then have "pg \<notin> set (renderers (load ld items fin store0 w))"
      by (simp add: load_renderers started_def)
    then show "pg \<notin> set (renderers (load ld items fin store0 w))
        \<and> map_of (l_store (load ld items fin store0 w)) (page_id pg) = map_of store0 (page_id pg)
        \<and> (\<forall>x. Set_entry x \<in> set (l_writes (load ld items fin store0 w)) \<longrightarrow>
               e_id x \<noteq> page_id pg)"
      using load_unchanged [OF d m n] by simp
  qed
  have d: "\<not> truthy (FORCE_RERENDER ld) \<longrightarrow>
        (\<forall>op \<in> set (l_writes (load ld items fin (l_store (load ld items fin store0 w))
                                 (l_world (load ld items fin store0 w)))).
           \<exists>x q. op = Set_entry x \<and> e_id x = page_id q \<and> q \<in> set (full_pages items)
             \<and> map_option digest (map_of (l_store (load ld items fin store0 w)) (page_id q))
                 \<noteq> Some (last_edited_time q))"
    using second_run_writes by blast
  have e: "(\<forall>q \<in> set (full_pages items).
          map_option digest (map_of (l_store (load ld items fin store0 w)) (page_id q))
            = Some (last_edited_time q))
      \<and> \<not> truthy (FORCE_RERENDER ld) \<longrightarrow>
        renderers (load ld items fin (l_store (load ld items fin store0 w))
                     (l_world (load ld items fin store0 w))) = []
        \<and> l_writes (load ld items fin (l_store (load ld items fin store0 w))
                      (l_world (load ld items fin store0 w))) = []"
  proof (intro impI, elim conjE)
    assume cur: "\<forall>q \<in> set (full_pages items).
          map_option digest (map_of (l_store (load ld items fin store0 w)) (page_id q))
            = Some (last_edited_time q)"
      and force: "\<not> truthy (FORCE_RERENDER ld)"
    have cur': "\<And>q. q \<in> set (full_pages items) \<Longrightarrow>
          map_option digest (map_of (l_store (load ld items fin store0 w)) (page_id q))
            = Some (last_edited_time q)"
      using cur by blast
    show "renderers (load ld items fin (l_store (load ld items fin store0 w))
                     (l_world (load ld items fin store0 w))) = []
        \<and> l_writes (load ld items fin (l_store (load ld items fin store0 w))
                      (l_world (load ld items fin store0 w))) = []"
      using cur' force by (rule second_run_idle)
  qed
  from a b b' c d e show ?thesis by (intro conjI)
qed

theorem load_skips_unchanged_witness:
  "load_page example_loader (first_state [(''A'', example_entry ''A'' ''t1'')] example_world)
       (example_page ''A'' ''t1'')
     = (first_state [(''A'', example_entry ''A'' ''t1'')] example_world)
         \<lparr>pageCount := 1, cachedPageIds := [], l_log := [Skipped ''A'']\<rparr>
   \<and> renderers (load_page example_loader (first_state [] example_world) (example_page ''A'' ''t1''))
     = [example_page ''A'' ''t1'']
   \<and> example_page ''B'' ''t1'' \<in> set (renderers (load example_loader
         [FullPage (example_page ''A'' ''t1''), FullPage (example_page ''B'' ''t1'')] None
         [(''A'', example_entry ''A'' ''t1'')] example_world))
   \<and> example_page ''A'' ''t1'' \<notin> set (renderers (load example_loader
         [FullPage (example_page ''A'' ''t1''), FullPage (example_page ''B'' ''t1'')] None
         [(''A'', example_entry ''A'' ''t1'')] example_world))
   \<and> map_of (l_store (load example_loader
         [FullPage (example_page ''A'' ''t1''), FullPage (example_page ''B'' ''t1'')] None
         [(''A'', example_entry ''A'' ''t1'')] example_world)) ''A''
     = Some (example_entry ''A'' ''t1'')
   \<and> (\<forall>i. Delete_entry i \<notin> set (l_writes (load example_gallery_loader
         [FullPage (example_page ''A'' ''t1'')] None
         (l_store (load example_gallery_loader [FullPage (example_page ''A'' ''t1'')] None []
            example_world))
         (l_world (load example_gallery_loader [FullPage (example_page ''A'' ''t1'')] None []
            example_world)))))
   \<and> renderers (load example_loader
         [FullPage (example_page ''A'' ''t1''), FullPage (example_page ''B'' ''t1'')] None
         (l_store (load example_loader
            [FullPage (example_page ''A'' ''t1''), FullPage (example_page ''B'' ''t1'')] None
            [] example_world))
         (l_world (load example_loader
            [FullPage (example_page ''A'' ''t1''), FullPage (example_page ''B'' ''t1'')] None
            [] example_world))) = []
   \<and> l_writes (load example_loader
         [FullPage (example_page ''A'' ''t1''), FullPage (example_page ''B'' ''t1'')] None
         (l_store (load example_loader
            [FullPage (example_page ''A'' ''t1''), FullPage (example_page ''B'' ''t1'')] None
            [] example_world))
         (l_world (load example_loader
            [FullPage (example_page ''A'' ''t1''), FullPage (example_page ''B'' ''t1'')] None
            [] example_world))) = []"
proof -
  let ?st = "first_state [(''A'', example_entry ''A'' ''t1'')] example_world"
  let ?A = "example_page ''A'' ''t1''"
  let ?B = "example_page ''B'' ''t1''"
  let ?items = "[FullPage ?A, FullPage ?B]"
  let ?one = "[FullPage ?A]"
  have force: "\<not> truthy (FORCE_RERENDER example_loader)"
    by (simp add: example_loader_def notionLoader_def truthy_def)
  have force_gallery: "\<not> truthy (FORCE_RERENDER example_gallery_loader)"
    by (simp add: example_gallery_loader_def notionLoader_def truthy_def)
  have h1: "map_option digest (map_of (l_store ?st) (page_id ?A)) = Some (last_edited_time ?A)
      \<and> \<not> truthy (FORCE_RERENDER example_loader)"
    using force by (simp add: first_state_def example_page_def example_entry_def)
  have w1: "load_page example_loader ?st ?A
      = ?st\<lparr>pageCount := 1, cachedPageIds := [], l_log := [Skipped ''A'']\<rparr>"
    using load_skips_unchanged [THEN conjunct1, rule_format, OF h1]
    by (simp add: first_state_def example_page_def)
  have h2: "map_of (l_store (first_state [] example_world)) (page_id ?A) = None"
    by (simp add: first_state_def)
  have w2: "renderers (load_page example_loader (first_state [] example_world) ?A) = [?A]"
    using load_skips_unchanged [THEN conjunct2, THEN conjunct1, rule_format, OF h2]
    by (simp add: first_state_def)
  have h2': "map_of [(''A'', example_entry ''A'' ''t1'')] (page_id ?B) = None
      \<and> ?B \<in> set (full_pages ?items)"
    by (simp add: example_page_def)
  have w2': "?B \<in> set (renderers (load example_loader ?items None
                [(''A'', example_entry ''A'' ''t1'')] example_world))"
    using load_skips_unchanged [THEN conjunct2, THEN conjunct2, THEN conjunct1, rule_format, OF h2'] .
  have h3: "map_option digest (map_of [(''A'', example_entry ''A'' ''t1'')] (page_id ?A))
        = Some (last_edited_time ?A)
      \<and> \<not> truthy (FORCE_RERENDER example_loader) \<and> ?A \<in> set (full_pages ?items)
      \<and> distinct (full_ids ?items)"
    using force by (simp add: example_page_def example_entry_def full_ids_def)
  have w3: "?A \<notin> set (renderers (load example_loader ?items None
                [(''A'', example_entry ''A'' ''t1'')] example_world))
      \<and> map_of (l_store (load example_loader ?items None
                [(''A'', example_entry ''A'' ''t1'')] example_world)) ''A''
          = Some (example_entry ''A'' ''t1'')"
    using load_skips_unchanged
      [THEN conjunct2, THEN conjunct2, THEN conjunct2, THEN conjunct1, rule_format, OF h3,
        of None example_world]
    by (simp add: example_page_def)
  have "\<forall>op \<in> set (l_writes (load example_gallery_loader ?one None
            (l_store (load example_gallery_loader ?one None [] example_world))
            (l_world (load example_gallery_loader ?one None [] example_world)))).
          \<exists>x q. op = Set_entry x \<and> e_id x = page_id q \<and> q \<in> set (full_pages ?one)
            \<and> map_option digest
                (map_of (l_store (load example_gallery_loader ?one None [] example_world)) (page_id q))
                \<noteq> Some (last_edited_time q)"
    using load_skips_unchanged
      [THEN conjunct2, THEN conjunct2, THEN conjunct2, THEN conjunct2, THEN conjunct1,
       THEN mp, OF force_gallery] .
  then have w4: "\<forall>i. Delete_entry i \<notin> set (l_writes (load example_gallery_loader ?one None
            (l_store (load example_gallery_loader ?one None [] example_world))
            (l_world (load example_gallery_loader ?one None [] example_world))))"
    by blast
  have cur: "map_option digest
        (map_of (l_store (load example_loader ?items None [] example_world)) (page_id q))
      = Some (last_edited_time q)" if "q \<in> set (full_pages ?items)" for q
  proof -
    have "distinct (full_ids ?items)" by (simp add: full_ids_def example_page_def)
    moreover have "changed example_loader [] q" by (simp add: changed_def)
    moreover have "\<And>v. stores example_loader q v"
      using that by (auto simp: example_stores example_page_def)
    ultimately show ?thesis
      using load_updated [of ?items q example_loader "[]" None example_world] that by auto
  qed
  then have h5: "(\<forall>q \<in> set (full_pages ?items).
        map_option digest
          (map_of (l_store (load example_loader ?items None [] example_world)) (page_id q))
        = Some (last_edited_time q))
      \<and> \<not> truthy (FORCE_RERENDER example_loader)"
    using force by blast
  have w5: "renderers (load example_loader ?items None
         (l_store (load example_loader ?items None [] example_world))
         (l_world (load example_loader ?items None [] example_world))) = []
      \<and> l_writes (load example_loader ?items None
         (l_store (load example_loader ?items None [] example_world))
         (l_world (load example_loader ?items None [] example_world))) = []"
    using load_skips_unchanged
      [THEN conjunct2, THEN conjunct2, THEN conjunct2, THEN conjunct2, THEN conjunct2,
       THEN mp, OF h5] .
  show ?thesis using w1 w2 w2' w3 w4 w5 by simp
qed

section \<open>Failed renders\<close>

text \<open>\<open>process\<close> raises exactly when one of its stages does, and the stages of the
  caller raise exactly when one of them does on the tree that the ones before it left.\<close>

lemma process_raises:
  "fst (process env sg hs0 bs paths) = Inl e \<longleftrightarrow>
     notionRehype sg bs = Inl e
     \<or> (\<exists>t0. notionRehype sg bs = Inr t0 \<and> fst (rehypeToc sg t0 hs0) = Inl e)
     \<or> (\<exists>t0 t1. notionRehype sg bs = Inr t0 \<and> fst (rehypeToc sg t0 hs0) = Inr t1
           \<and> run_plugins (plugins sg) t1 = Inl e)
     \<or> (\<exists>t0 t1 t2. notionRehype sg bs = Inr t0 \<and> fst (rehypeToc sg t0 hs0) = Inr t1
           \<and> run_plugins (plugins sg) t1 = Inr t2 \<and> rehypeAssets env paths t2 = Inl e)"
  by (auto simp: process_def split: sum.splits prod.splits)

lemma run_plugins_raises:
  "run_plugins fs t = Inl e \<longleftrightarrow>
     (\<exists>before f rest t1. fs = before @ f # rest \<and> run_plugins before t = Inr t1 \<and> f t1 = Inl e)"
proof (induction fs t rule: run_plugins.induct)
  case (1 tree)
  then show ?case by simp
next
  case (2 f fs tree)
  show ?case
  proof (cases "f tree")
    case (Inl a)
    show ?thesis
    proof
      assume "run_plugins (f # fs) tree = Inl e"
      then have "f tree = Inl e" using Inl by simp
      then have "f # fs = [] @ f # fs \<and> run_plugins [] tree = Inr tree \<and> f tree = Inl e" by simp
      then show "\<exists>before g rest t1. f # fs = before @ g # rest \<and> run_plugins before tree = Inr t1 \<and> g t1 = Inl e"
        by blast
    next
      assume "\<exists>before g rest t1. f # fs = before @ g # rest \<and> run_plugins before tree = Inr t1 \<and> g t1 = Inl e"
      then obtain before g rest t1 where b: "f # fs = before @ g # rest"
        "run_plugins before tree = Inr t1" "g t1 = Inl e" by blast
      show "run_plugins (f # fs) tree = Inl e"
      proof (cases before)
        case Nil
        then show ?thesis using b by simp
      next
        case (Cons x xs)
        then have "x = f" using b(1) by simp
        then show ?thesis using b(2) Cons Inl by simp
      qed
    qed
  next
    case (Inr t2)
    have "run_plugins (f # fs) tree = Inl e \<longleftrightarrow> run_plugins fs t2 = Inl e" using Inr by simp
    also have "\<dots> \<longleftrightarrow> (\<exists>before g rest t1. fs = before @ g # rest \<and> run_plugins before t2 = Inr t1 \<and> g t1 = Inl e)"
      using 2 Inr by simp
    also have "\<dots> \<longleftrightarrow> (\<exists>before g rest t1. f # fs = before @ g # rest \<and> run_plugins before tree = Inr t1 \<and> g t1 = Inl e)"
    proof
      assume "\<exists>before g rest t1. fs = before @ g # rest \<and> run_plugins before t2 = Inr t1 \<and> g t1 = Inl e"
      then obtain before g rest t1 where b: "fs = before @ g # rest"
        "run_plugins before t2 = Inr t1" "g t1 = Inl e" by blast
      then have "f # fs = (f # before) @ g # rest \<and> run_plugins (f # before) tree = Inr t1 \<and> g t1 = Inl e"
        using Inr by simp
      then show "\<exists>before g rest t1. f # fs = before @ g # rest \<and> run_plugins before tree = Inr t1 \<and> g t1 = Inl e"
        by blast
    next
      assume "\<exists>before g rest t1. f # fs = before @ g # rest \<and> run_plugins before tree = Inr t1 \<and> g t1 = Inl e"
      then obtain before g rest t1 where b: "f # fs = before @ g # rest"
        "run_plugins before tree = Inr t1" "g t1 = Inl e" by blast
      show "\<exists>before g rest t1. fs = before @ g # rest \<and> run_plugins before t2 = Inr t1 \<and> g t1 = Inl e"
      proof (cases before)
        case Nil
        then have "g = f" "t1 = tree" using b by simp_all
        then show ?thesis using b(3) Inr by simp
      next
        case (Cons x xs)
        then have "x = f" "fs = xs @ g # rest" using b(1) by simp_all
        moreover have "run_plugins xs t2 = Inr t1" using b(2) Cons \<open>x = f\<close> Inr by simp
        ultimately show ?thesis using b(3) by blast
      qed
    qed
    finally show ?thesis .
  qed
qed

text \<open>
  Claim C6: when the fetch of the blocks raises, or \<open>process\<close> raises (the error of
  any of its stages), \<open>render\<close> returns the empty result and the world has the error
  as the last line of its log (the construction of the page data has no statement that
  raises). The continuation of a render with the empty result writes nothing. Over a
  run on an enumeration with distinct ids, a page whose render is empty in every world
  has its entry as before (or none) and no call of \<^verbatim>\<open>store.set\<close> has its id; a
  changed page whose render ends in a write has its entry with the new digest; and when
  no \<open>parseData\<close> rejects, no promise of a run whose enumeration ends is rejected.
\<close>

theorem render_failure_contained:
  "(fetchBlocks env root (fst (children_list cl (page_id pg)))
        (snd (children_list cl (page_id pg)))
        (snd (getPageData env root pg (renderer_state w))) = (Inl e, st2) \<longrightarrow>
      render env cl sg root pg w
        = (\<lparr>data = None, rendered = None\<rparr>,
           world_of (st2\<lparr>r_errors := r_errors st2 @ [e]\<rparr>) (w_headings w)))
   \<and> (fetchBlocks env root (fst (children_list cl (page_id pg)))
        (snd (children_list cl (page_id pg)))
        (snd (getPageData env root pg (renderer_state w))) = (Inr bs, st2)
      \<and> process env sg (w_headings w) bs (r_assetPaths st2) = (Inl e, hs) \<longrightarrow>
      render env cl sg root pg w
        = (\<lparr>data = None, rendered = None\<rparr>,
           world_of (st2\<lparr>r_errors := r_errors st2 @ [e]\<rparr>) hs))
   \<and> (fst (render_page ld pg (l_world st)) = \<lparr>data = None, rendered = None\<rparr> \<longrightarrow>
      settle ld pg st = st\<lparr>l_world := snd (render_page ld pg (l_world st))\<rparr>)
   \<and> (distinct (full_ids items) \<and> pg \<in> set (full_pages items)
      \<and> (\<forall>v. fst (render_page ld pg v) = \<lparr>data = None, rendered = None\<rparr>) \<longrightarrow>
      map_of (l_store (load ld items fin store0 w)) (page_id pg) = map_of store0 (page_id pg)
      \<and> (\<forall>x. Set_entry x \<in> set (l_writes (load ld items fin store0 w)) \<longrightarrow>
             e_id x \<noteq> page_id pg))
   \<and> (distinct (full_ids items) \<and> q \<in> set (full_pages items) \<and> changed ld store0 q
      \<and> (\<forall>v. stores ld q v) \<longrightarrow>
      (\<exists>x. map_of (l_store (load ld items fin store0 w)) (page_id q) = Some x
           \<and> e_id x = page_id q \<and> digest x = last_edited_time q
           \<and> Set_entry x \<in> set (l_writes (load ld items fin store0 w))))
   \<and> ((\<forall>p v. p \<in> set (full_pages items) \<longrightarrow> \<not> rejects ld p v) \<longrightarrow>
      l_rejected (load ld items None store0 w) = [])"
proof -
  have a: "fetchBlocks env root (fst (children_list cl (page_id pg)))
        (snd (children_list cl (page_id pg)))
        (snd (getPageData env root pg (renderer_state w))) = (Inl e, st2) \<longrightarrow>
      render env cl sg root pg w
        = (\<lparr>data = None, rendered = None\<rparr>,
           world_of (st2\<lparr>r_errors := r_errors st2 @ [e]\<rparr>) (w_headings w))"
    using render_fetch_fails by blast
  have b: "fetchBlocks env root (fst (children_list cl (page_id pg)))
        (snd (children_list cl (page_id pg)))
        (snd (getPageData env root pg (renderer_state w))) = (Inr bs, st2)
      \<and> process env sg (w_headings w) bs (r_assetPaths st2) = (Inl e, hs) \<longrightarrow>
      render env cl sg root pg w
        = (\<lparr>data = None, rendered = None\<rparr>,
           world_of (st2\<lparr>r_errors := r_errors st2 @ [e]\<rparr>) hs)"
    using render_process_fails by blast
  have c: "fst (render_page ld pg (l_world st)) = \<lparr>data = None, rendered = None\<rparr> \<longrightarrow>
      settle ld pg st = st\<lparr>l_world := snd (render_page ld pg (l_world st))\<rparr>"
    using settle_empty by blast
  have d: "distinct (full_ids items) \<and> pg \<in> set (full_pages items)
      \<and> (\<forall>v. fst (render_page ld pg v) = \<lparr>data = None, rendered = None\<rparr>) \<longrightarrow>
      map_of (l_store (load ld items fin store0 w)) (page_id pg) = map_of store0 (page_id pg)
      \<and> (\<forall>x. Set_entry x \<in> set (l_writes (load ld items fin store0 w)) \<longrightarrow>
             e_id x \<noteq> page_id pg)"
  proof (intro impI, elim conjE)
    assume dd: "distinct (full_ids items)" and m: "pg \<in> set (full_pages items)"
      and f: "\<forall>v. fst (render_page ld pg v) = \<lparr>data = None, rendered = None\<rparr>"
    have "\<And>v. \<not> stores ld pg v" using f empty_never_stores by blast
    then show "map_of (l_store (load ld items fin store0 w)) (page_id pg) = map_of store0 (page_id pg)
      \<and> (\<forall>x. Set_entry x \<in> set (l_writes (load ld items fin store0 w)) \<longrightarrow>
             e_id x \<noteq> page_id pg)"
      by (rule load_untouched [OF dd m])
  qed
  have e: "distinct (full_ids items) \<and> q \<in> set (full_pages items) \<and> changed ld store0 q
      \<and> (\<forall>v. stores ld q v) \<longrightarrow>
      (\<exists>x. map_of (l_store (load ld items fin store0 w)) (page_id q) = Some x
           \<and> e_id x = page_id q \<and> digest x = last_edited_time q
           \<and> Set_entry x \<in> set (l_writes (load ld items fin store0 w)))"
  proof (intro impI, elim conjE)
    assume dd: "distinct (full_ids items)" and m: "q \<in> set (full_pages items)"
      and ch: "changed ld store0 q" and s: "\<forall>v. stores ld q v"
    have "\<And>v. stores ld q v" using s by blast
    then show "\<exists>x. map_of (l_store (load ld items fin store0 w)) (page_id q) = Some x
           \<and> e_id x = page_id q \<and> digest x = last_edited_time q
           \<and> Set_entry x \<in> set (l_writes (load ld items fin store0 w))"
      by (rule load_updated [OF dd m ch])
  qed
  have f: "(\<forall>p v. p \<in> set (full_pages items) \<longrightarrow> \<not> rejects ld p v) \<longrightarrow>
      l_rejected (load ld items None store0 w) = []"
    using load_not_rejected by blast
  from a b c d e f show ?thesis by (intro conjI)
qed

theorem render_failure_contained_witness:
  "render example_platform example_client example_stages example_root
       (example_page ''bad'' ''t1'') example_world
     = (\<lparr>data = None, rendered = None\<rparr>, example_world\<lparr>w_errors := [ApiError ''bad'']\<rparr>)
   \<and> render example_platform example_client
       (example_stages\<lparr>plugins := [\<lambda>t. Inl (StageError ''plugin'')]\<rparr>) example_root
       (example_page ''A'' ''t1'') example_world
     = (\<lparr>data = None, rendered = None\<rparr>, example_world\<lparr>w_errors := [StageError ''plugin'']\<rparr>)
   \<and> settle example_loader (example_page ''bad'' ''t1'') (first_state [] example_world)
     = (first_state [] example_world)
         \<lparr>l_world := example_world\<lparr>w_errors := [ApiError ''bad'']\<rparr>\<rparr>
   \<and> map_of (l_store (load example_loader
         [FullPage (example_page ''bad'' ''t1''), FullPage (example_page ''A'' ''t1'')] None
         [] example_world)) ''bad'' = None
   \<and> (\<exists>x. map_of (l_store (load example_loader
         [FullPage (example_page ''bad'' ''t1''), FullPage (example_page ''A'' ''t1'')] None
         [] example_world)) ''A'' = Some x \<and> digest x = ''t1'')
   \<and> l_rejected (load example_loader
         [FullPage (example_page ''bad'' ''t1''), FullPage (example_page ''A'' ''t1'')] None
         [] example_world) = []"
proof -
  let ?bad = "example_page ''bad'' ''t1''"
  let ?A = "example_page ''A'' ''t1''"
  let ?items = "[FullPage ?bad, FullPage ?A]"
  let ?sg = "example_stages\<lparr>plugins := [\<lambda>t. Inl (StageError ''plugin'')]\<rparr>"
  have h1: "fetchBlocks example_platform example_root
        (fst (children_list example_client (page_id ?bad)))
        (snd (children_list example_client (page_id ?bad)))
        (snd (getPageData example_platform example_root ?bad (renderer_state example_world)))
      = (Inl (ApiError ''bad''), renderer_state example_world)"
    by (simp add: example_client_def example_page_def getPageData_def fetchAsset_def)
  have w1: "render example_platform example_client example_stages example_root ?bad example_world
     = (\<lparr>data = None, rendered = None\<rparr>, example_world\<lparr>w_errors := [ApiError ''bad'']\<rparr>)"
    using render_failure_contained [THEN conjunct1, rule_format, OF h1,
        of example_stages]
    by (simp add: world_of_def renderer_state_def example_world_def)
  have h2: "fetchBlocks example_platform example_root
        (fst (children_list example_client (page_id ?A)))
        (snd (children_list example_client (page_id ?A)))
        (snd (getPageData example_platform example_root ?A (renderer_state example_world)))
      = (Inr [], renderer_state example_world)
      \<and> process example_platform ?sg (w_headings example_world) []
          (r_assetPaths (renderer_state example_world))
        = (Inl (StageError ''plugin''), [])"
    by (simp add: example_client_def example_page_def getPageData_def fetchAsset_def
        example_stages_def process_def rehypeToc_def customizeTOC_def extractTocHeadings_def)
  have w2: "render example_platform example_client ?sg example_root ?A example_world
     = (\<lparr>data = None, rendered = None\<rparr>, example_world\<lparr>w_errors := [StageError ''plugin'']\<rparr>)"
    using render_failure_contained [THEN conjunct2, THEN conjunct1, rule_format, OF h2]
    by (simp add: world_of_def renderer_state_def example_world_def)
  have h3: "fst (render_page example_loader ?bad (l_world (first_state [] example_world)))
      = \<lparr>data = None, rendered = None\<rparr>"
    by (simp add: example_bad)
  have w3: "settle example_loader ?bad (first_state [] example_world)
     = (first_state [] example_world)\<lparr>l_world := example_world\<lparr>w_errors := [ApiError ''bad'']\<rparr>\<rparr>"
    using render_failure_contained
      [THEN conjunct2, THEN conjunct2, THEN conjunct1, rule_format, OF h3]
    by (simp add: example_bad first_state_def example_world_def)
  have h4: "distinct (full_ids ?items) \<and> ?bad \<in> set (full_pages ?items)
      \<and> (\<forall>v. fst (render_page example_loader ?bad v) = \<lparr>data = None, rendered = None\<rparr>)"
  proof -
    have "distinct (full_ids ?items) \<and> ?bad \<in> set (full_pages ?items)"
      by (simp add: full_ids_def example_page_def)
    moreover have "\<forall>v. fst (render_page example_loader ?bad v) = \<lparr>data = None, rendered = None\<rparr>"
      by (simp add: example_bad)
    ultimately show ?thesis by blast
  qed
  have w4: "map_of (l_store (load example_loader ?items None [] example_world)) ''bad'' = None"
    using render_failure_contained
      [THEN conjunct2, THEN conjunct2, THEN conjunct2, THEN conjunct1, rule_format, OF h4,
       THEN conjunct1, of None "[]" example_world]
    by (simp add: example_page_def)
  have h5: "distinct (full_ids ?items) \<and> ?A \<in> set (full_pages ?items)
      \<and> changed example_loader [] ?A \<and> (\<forall>v. stores example_loader ?A v)"
    by (simp add: example_stores full_ids_def example_page_def changed_def)
  have w5: "\<exists>x. map_of (l_store (load example_loader ?items None [] example_world)) ''A'' = Some x
      \<and> digest x = ''t1''"
    using render_failure_contained
      [THEN conjunct2, THEN conjunct2, THEN conjunct2, THEN conjunct2, THEN conjunct1,
       rule_format, OF h5, of None example_world]
    by (auto simp: example_page_def)
  have h6: "\<forall>p v. p \<in> set (full_pages ?items) \<longrightarrow> \<not> rejects example_loader p v"
    by (simp add: example_rejects)
  have w6: "l_rejected (load example_loader ?items None [] example_world) = []"
    using render_failure_contained
      [THEN conjunct2, THEN conjunct2, THEN conjunct2, THEN conjunct2, THEN conjunct2,
       THEN mp, OF h6] .
  show ?thesis using w1 w2 w3 w4 w5 w6 by simp
qed

end
